theory Spec2Isabelle
  imports Main "HOL-Library.AList"
begin

section \<open>Data model\<close>

text \<open>
  The development embeds the class \<open>DocumentRepositoryManager\<close> of
  \<open>110 - Gemini File Search Tool/06_test_python_document_repository_manager.py\<close>.
  Python dictionaries are association lists in insertion order: \<open>map_of\<close> is the lookup,
  \<open>AList.update\<close> is \<open>d[k] = v\<close> (an existing key keeps its position, a new key goes last).
  Python strings are restricted to the code points below 256 (the type \<open>char\<close>).
\<close>

type_synonym str_dict = "(string \<times> string) list"

text \<open>\<open>self.version_log\<close>: display name to the list of its entries, each a dictionary.\<close>

type_synonym version_log = "(string \<times> str_dict list) list"

datatype metadata_value = StringValue string | NumericValue int | StringListValue "string list"

datatype metadata = Metadata (meta_key: string) (meta_value: metadata_value)

type_synonym chunking_config = "(string \<times> nat) list"

text \<open>The \<open>config\<close> dictionary handed to the upload call.\<close>

record upload_config =
  cfg_display_name :: string
  cfg_custom_metadata :: "metadata list option"
  cfg_chunking_config :: "chunking_config option"

text \<open>A document as the backend lists it; \<open>doc_name\<close> is the opaque backend identifier.\<close>

record document =
  doc_name :: nat
  doc_display_name :: string
  doc_state :: string
  doc_size_bytes :: nat
  doc_custom_metadata :: "metadata list"

text \<open>The pollable handle returned by an upload.\<close>

record operation =
  op_name :: nat
  op_done :: bool

datatype error =
  FileNotFoundError string | ClientError string | JSONDecodeError | RecursionError | OSError string

fun error_message :: "error \<Rightarrow> string" where
  "error_message (FileNotFoundError p) = p @ '' is not a valid file path.''"
| "error_message (ClientError s) = s"
| "error_message JSONDecodeError = ''Expecting value''"
| "error_message RecursionError = ''maximum recursion depth exceeded''"
| "error_message (OSError s) = s"

text \<open>Every call on the module-level \<open>client\<close> is recorded, in order, with its arguments.\<close>

datatype call =
    ListDocuments string
  | DeleteDocument nat
  | Upload string string upload_config
  | GetOperation nat

text \<open>
  The collaborators the class does not implement: which backend calls raise, what a poll
  of an operation reports at a given time, which paths \<open>open(path, 'w')\<close> refuses (a
  missing directory, no permission), and how the wall clock is rendered.
\<close>

record env =
  raises :: "call \<Rightarrow> error option"
  poll_result :: "nat \<Rightarrow> nat \<Rightarrow> error + bool"
  open_raises :: "string \<Rightarrow> error option"
  isoformat :: "nat \<Rightarrow> string"
  strftime :: "nat \<Rightarrow> string"

text \<open>
  Everything outside the manager object: the documents of the one store in the backend's
  listing order, the next identifier the backend assigns, the calls made so far, the local
  file system (path to contents) and the wall clock.
\<close>

record world =
  documents :: "document list"
  next_id :: nat
  calls :: "call list"
  files :: "(string \<times> string) list"
  now :: nat

record manager =
  store_name :: string
  version_log_path :: string
  version_log :: version_log

section \<open>The store backend\<close>

definition record_call :: "call \<Rightarrow> world \<Rightarrow> world" where
  "record_call c w = w\<lparr>calls := calls w @ [c]\<rparr>"

text \<open>\<open>client.file_search_stores.documents.list(parent=...)\<close>, read as a snapshot.\<close>

definition documents_list :: "env \<Rightarrow> string \<Rightarrow> world \<Rightarrow> (error + document list) \<times> world" where
  "documents_list env parent w =
     (let w1 = record_call (ListDocuments parent) w in
      case raises env (ListDocuments parent) of
        Some e \<Rightarrow> (Inl e, w1)
      | None \<Rightarrow> (Inr (documents w1), w1))"

text \<open>\<open>client.file_search_stores.documents.delete(name=..., config={'force': True})\<close>.\<close>

definition documents_delete :: "env \<Rightarrow> nat \<Rightarrow> world \<Rightarrow> (error + unit) \<times> world" where
  "documents_delete env n w =
     (let w1 = record_call (DeleteDocument n) w in
      case raises env (DeleteDocument n) of
        Some e \<Rightarrow> (Inl e, w1)
      | None \<Rightarrow>
          if n \<notin> doc_name ` set (documents w1) then (Inl (ClientError ''404 NOT_FOUND''), w1)
          else (Inr (), w1\<lparr>documents := filter (\<lambda>d. doc_name d \<noteq> n) (documents w1)\<rparr>))"

text \<open>
  \<open>client.file_search_stores.upload_to_file_search_store(file=..., ...)\<close>: the client reads
  the local file, so a path that names no file raises inside the call.
\<close>

definition upload_to_file_search_store ::
  "env \<Rightarrow> string \<Rightarrow> string \<Rightarrow> upload_config \<Rightarrow> world \<Rightarrow> (error + operation) \<times> world" where
  "upload_to_file_search_store env file store config w =
     (let w1 = record_call (Upload file store config) w in
      case map_of (files w1) file of
        None \<Rightarrow> (Inl (FileNotFoundError file), w1)
      | Some contents \<Rightarrow>
          (case raises env (Upload file store config) of
             Some e \<Rightarrow> (Inl e, w1)
           | None \<Rightarrow>
               (let doc = \<lparr>doc_name = next_id w1,
                           doc_display_name = cfg_display_name config,
                           doc_state = ''STATE_PENDING'',
                           doc_size_bytes = length contents,
                           doc_custom_metadata =
                             (case cfg_custom_metadata config of None \<Rightarrow> [] | Some ms \<Rightarrow> ms)\<rparr>
                in (Inr \<lparr>op_name = next_id w1,
                         op_done = (poll_result env (next_id w1) (now w1) = Inr True)\<rparr>,
                    w1\<lparr>documents := documents w1 @ [doc], next_id := Suc (next_id w1)\<rparr>))))"

text \<open>\<open>client.operations.get(operation)\<close>.\<close>

definition operations_get :: "env \<Rightarrow> operation \<Rightarrow> world \<Rightarrow> (error + operation) \<times> world" where
  "operations_get env operation w =
     (let w1 = record_call (GetOperation (op_name operation)) w in
      case poll_result env (op_name operation) (now w1) of
        Inl e \<Rightarrow> (Inl e, w1)
      | Inr d \<Rightarrow> (Inr (operation\<lparr>op_done := d\<rparr>), w1))"

text \<open>\<open>time.sleep(secs)\<close>.\<close>

definition sleep :: "nat \<Rightarrow> world \<Rightarrow> world" where
  "sleep secs w = w\<lparr>now := now w + secs\<rparr>"

section \<open>JSON output\<close>

datatype json = JString string | JArray "json list" | JObject "(string \<times> json) list"

definition hex_digit :: "nat \<Rightarrow> char" where
  "hex_digit n = (if n < 10 then char_of (48 + n) else char_of (87 + n))"

text \<open>One character of \<open>py_encode_basestring_ascii\<close>.\<close>

definition escape_char :: "char \<Rightarrow> string" where
  "escape_char c =
     (if c = CHR 0x22 then [CHR 0x5C, CHR 0x22]
      else if c = CHR 0x5C then [CHR 0x5C, CHR 0x5C]
      else if c = CHR 0x0A then [CHR 0x5C, CHR ''n'']
      else if c = CHR 0x0D then [CHR 0x5C, CHR ''r'']
      else if c = CHR 0x09 then [CHR 0x5C, CHR ''t'']
      else if c = CHR 0x08 then [CHR 0x5C, CHR ''b'']
      else if c = CHR 0x0C then [CHR 0x5C, CHR ''f'']
      else if (of_char c :: nat) < 32 \<or> 126 < (of_char c :: nat)
        then [CHR 0x5C, CHR ''u'', CHR ''0'', CHR ''0'',
              hex_digit ((of_char c :: nat) div 16), hex_digit ((of_char c :: nat) mod 16)]
      else [c])"

definition encode_string :: "string \<Rightarrow> string" where
  "encode_string s = [CHR 0x22] @ concat (map escape_char s) @ [CHR 0x22]"

definition indent :: "nat \<Rightarrow> string" where
  "indent level = replicate (2 * level) CHR '' ''"

text \<open>Items of a non-empty container, one per line, separated by a comma.\<close>

fun join_items :: "string list \<Rightarrow> string" where
  "join_items [] = []"
| "join_items [x] = x"
| "join_items (x # y # ys) = x @ '','' @ [CHR 0x0A] @ join_items (y # ys)"

fun dumps :: "nat \<Rightarrow> json \<Rightarrow> string" where
  "dumps level (JString s) = encode_string s"
| "dumps level (JArray xs) =
     (if xs = [] then ''[]''
      else ''['' @ [CHR 0x0A]
           @ join_items (map (\<lambda>x. indent (Suc level) @ dumps (Suc level) x) xs)
           @ [CHR 0x0A] @ indent level @ '']'')"
| "dumps level (JObject kvs) =
     (if kvs = [] then ''{}''
      else ''{'' @ [CHR 0x0A]
           @ join_items (map (\<lambda>kv. indent (Suc level) @ encode_string (fst kv) @ '': ''
                                    @ dumps (Suc level) (snd kv)) kvs)
           @ [CHR 0x0A] @ indent level @ ''}'')"

definition entry_to_json :: "str_dict \<Rightarrow> json" where
  "entry_to_json e = JObject (map (\<lambda>kv. (fst kv, JString (snd kv))) e)"

definition log_to_json :: "version_log \<Rightarrow> json" where
  "log_to_json log = JObject (map (\<lambda>ne. (fst ne, JArray (map entry_to_json (snd ne)))) log)"

text \<open>\<open>json.dump(self.version_log, f, indent=2, default=str)\<close>, as the text written.\<close>

definition json_dump :: "version_log \<Rightarrow> string" where
  "json_dump log = dumps 0 (log_to_json log)"

section \<open>JSON input\<close>

text \<open>
  \<open>json.load\<close>, restricted to the values a Version Log is made of (strings, arrays,
  objects): any other text, and any \<open>\\u\<close> escape above 255, is a decode error here. The
  recursion of the decoder is bounded by a fuel, the length of the text.
\<close>

definition is_ws :: "char \<Rightarrow> bool" where
  "is_ws c = (c = CHR '' '' \<or> c = CHR 0x09 \<or> c = CHR 0x0A \<or> c = CHR 0x0D)"

definition skip_ws :: "string \<Rightarrow> string" where
  "skip_ws s = dropWhile is_ws s"

text \<open>The four hexadecimal digits of a \<open>\\u\<close> escape.\<close>

definition hex_value :: "char \<Rightarrow> nat option" where
  "hex_value c =
     (let n = (of_char c :: nat) in
      if 48 \<le> n \<and> n \<le> 57 then Some (n - 48)
      else if 97 \<le> n \<and> n \<le> 102 then Some (n - 87)
      else if 65 \<le> n \<and> n \<le> 70 then Some (n - 55)
      else None)"

definition decode_uXXXX :: "string \<Rightarrow> char option" where
  "decode_uXXXX esc =
     (case map hex_value esc of
        [Some a, Some b, Some c, Some d] \<Rightarrow>
          (let uni = ((a * 16 + b) * 16 + c) * 16 + d in
           if uni < 256 then Some (char_of uni) else None)
      | _ \<Rightarrow> None)"

definition backslash :: "char \<Rightarrow> char option" where
  "backslash esc =
     (if esc = CHR 0x22 then Some (CHR 0x22)
      else if esc = CHR 0x5C then Some (CHR 0x5C)
      else if esc = CHR ''/'' then Some (CHR ''/'')
      else if esc = CHR ''b'' then Some (CHR 0x08)
      else if esc = CHR ''f'' then Some (CHR 0x0C)
      else if esc = CHR ''n'' then Some (CHR 0x0A)
      else if esc = CHR ''r'' then Some (CHR 0x0D)
      else if esc = CHR ''t'' then Some (CHR 0x09)
      else None)"

text \<open>\<open>py_scanstring\<close> in strict mode, from the character after the opening quote.\<close>

fun scanstring :: "string \<Rightarrow> error + (string \<times> string)" where
  "scanstring [] = Inl JSONDecodeError"
| "scanstring (c # cs) =
     (if c = CHR 0x22 then Inr ([], cs)
      else if c = CHR 0x5C then
        (case cs of
           [] \<Rightarrow> Inl JSONDecodeError
         | esc # cs1 \<Rightarrow>
             if esc = CHR ''u'' then
               (case decode_uXXXX (take 4 cs1) of
                  None \<Rightarrow> Inl JSONDecodeError
                | Some ch \<Rightarrow>
                    (case scanstring (drop 4 cs1) of
                       Inl e \<Rightarrow> Inl e
                     | Inr (chunks, rest) \<Rightarrow> Inr (ch # chunks, rest)))
             else
               (case backslash esc of
                  None \<Rightarrow> Inl JSONDecodeError
                | Some ch \<Rightarrow>
                    (case scanstring cs1 of
                       Inl e \<Rightarrow> Inl e
                     | Inr (chunks, rest) \<Rightarrow> Inr (ch # chunks, rest))))
      else if (of_char c :: nat) < 32 then Inl JSONDecodeError
      else
        (case scanstring cs of
           Inl e \<Rightarrow> Inl e
         | Inr (chunks, rest) \<Rightarrow> Inr (c # chunks, rest)))"

text \<open>\<open>dict(pairs)\<close>: a repeated key keeps its first position and its last value.\<close>

definition dict :: "(string \<times> 'a) list \<Rightarrow> (string \<times> 'a) list" where
  "dict pairs = foldl (\<lambda>d kv. AList.update (fst kv) (snd kv) d) [] pairs"

text \<open>
  \<open>scan_once\<close> with \<open>JSONArray\<close> and \<open>JSONObject\<close>; the last two are entered at the
  first character of the first item, with the items read so far.
\<close>

fun scan_once :: "nat \<Rightarrow> string \<Rightarrow> error + (json \<times> string)"
  and parse_array :: "nat \<Rightarrow> json list \<Rightarrow> string \<Rightarrow> error + (json list \<times> string)"
  and parse_object :: "nat \<Rightarrow> (string \<times> json) list \<Rightarrow> string
                         \<Rightarrow> error + ((string \<times> json) list \<times> string)" where
  "scan_once 0 s = Inl RecursionError"
| "scan_once (Suc fuel) [] = Inl JSONDecodeError"
| "scan_once (Suc fuel) (c # cs) =
     (if c = CHR 0x22 then
        (case scanstring cs of
           Inl e \<Rightarrow> Inl e
         | Inr (str, rest) \<Rightarrow> Inr (JString str, rest))
      else if c = CHR ''['' then
        (case skip_ws cs of
           [] \<Rightarrow> Inl JSONDecodeError
         | c1 # rest \<Rightarrow>
             if c1 = CHR '']'' then Inr (JArray [], rest)
             else (case parse_array fuel [] (c1 # rest) of
                     Inl e \<Rightarrow> Inl e
                   | Inr (values, rest1) \<Rightarrow> Inr (JArray values, rest1)))
      else if c = CHR ''{'' then
        (case skip_ws cs of
           [] \<Rightarrow> Inl JSONDecodeError
         | c1 # rest \<Rightarrow>
             if c1 = CHR ''}'' then Inr (JObject [], rest)
             else (case parse_object fuel [] (c1 # rest) of
                     Inl e \<Rightarrow> Inl e
                   | Inr (pairs, rest1) \<Rightarrow> Inr (JObject (dict pairs), rest1)))
      else Inl JSONDecodeError)"
| "parse_array 0 values s = Inl RecursionError"
| "parse_array (Suc fuel) values s =
     (case scan_once fuel s of
        Inl e \<Rightarrow> Inl e
      | Inr (v, rest) \<Rightarrow>
          (case skip_ws rest of
             [] \<Rightarrow> Inl JSONDecodeError
           | c # rest1 \<Rightarrow>
               if c = CHR '']'' then Inr (values @ [v], rest1)
               else if c = CHR '','' then parse_array fuel (values @ [v]) (skip_ws rest1)
               else Inl JSONDecodeError))"
| "parse_object 0 pairs s = Inl RecursionError"
| "parse_object (Suc fuel) pairs [] = Inl JSONDecodeError"
| "parse_object (Suc fuel) pairs (q # cs) =
     (if q \<noteq> CHR 0x22 then Inl JSONDecodeError
      else
        (case scanstring cs of
           Inl e \<Rightarrow> Inl e
         | Inr (key, rest) \<Rightarrow>
             (case skip_ws rest of
                [] \<Rightarrow> Inl JSONDecodeError
              | c # rest1 \<Rightarrow>
                  if c \<noteq> CHR '':'' then Inl JSONDecodeError
                  else
                    (case scan_once fuel (skip_ws rest1) of
                       Inl e \<Rightarrow> Inl e
                     | Inr (v, rest2) \<Rightarrow>
                         (case skip_ws rest2 of
                            [] \<Rightarrow> Inl JSONDecodeError
                          | c2 # rest3 \<Rightarrow>
                              if c2 = CHR ''}'' then Inr (pairs @ [(key, v)], rest3)
                              else if c2 = CHR '','' then
                                parse_object fuel (pairs @ [(key, v)]) (skip_ws rest3)
                              else Inl JSONDecodeError)))))"

definition loads :: "string \<Rightarrow> error + json" where
  "loads s =
     (case scan_once (Suc (length s)) (skip_ws s) of
        Inl e \<Rightarrow> Inl e
      | Inr (obj, rest) \<Rightarrow> if skip_ws rest = [] then Inr obj else Inl JSONDecodeError)"

text \<open>The typed reading of the decoded value as a Version Log.\<close>

fun json_to_string :: "json \<Rightarrow> string option" where
  "json_to_string (JString s) = Some s"
| "json_to_string _ = None"

fun json_to_entry :: "json \<Rightarrow> str_dict option" where
  "json_to_entry (JObject kvs) =
     those (map (\<lambda>kv. map_option (Pair (fst kv)) (json_to_string (snd kv))) kvs)"
| "json_to_entry _ = None"

fun json_to_entries :: "json \<Rightarrow> str_dict list option" where
  "json_to_entries (JArray xs) = those (map json_to_entry xs)"
| "json_to_entries _ = None"

fun json_to_log :: "json \<Rightarrow> version_log option" where
  "json_to_log (JObject kvs) =
     those (map (\<lambda>kv. map_option (Pair (fst kv)) (json_to_entries (snd kv))) kvs)"
| "json_to_log _ = None"

definition json_load :: "string \<Rightarrow> error + version_log" where
  "json_load s =
     (case loads s of
        Inl e \<Rightarrow> Inl e
      | Inr obj \<Rightarrow> (case json_to_log obj of None \<Rightarrow> Inl JSONDecodeError | Some log \<Rightarrow> Inr log))"

text \<open>Enough fuel to decode the text of a value, and the values whose objects have no repeated key.\<close>

fun json_size :: "json \<Rightarrow> nat" where
  "json_size (JString s) = 1"
| "json_size (JArray xs) = Suc (sum_list (map (\<lambda>x. Suc (json_size x)) xs))"
| "json_size (JObject kvs) = Suc (sum_list (map (\<lambda>kv. Suc (json_size (snd kv))) kvs))"

fun wf_json :: "json \<Rightarrow> bool" where
  "wf_json (JString s) = True"
| "wf_json (JArray xs) = list_all wf_json xs"
| "wf_json (JObject kvs) = (distinct (map fst kvs) \<and> list_all (\<lambda>kv. wf_json (snd kv)) kvs)"

text \<open>An association list that is a Python dictionary of dictionaries: no key occurs twice.\<close>

definition is_mapping :: "version_log \<Rightarrow> bool" where
  "is_mapping log =
     (distinct (map fst log)
      \<and> list_all (\<lambda>ne. list_all (\<lambda>e. distinct (map fst e)) (snd ne)) log)"

section \<open>The manager\<close>

text \<open>The file at the log path after \<open>json.dump\<close> wrote into it: rewritten in full.\<close>

definition write_version_log :: "manager \<Rightarrow> world \<Rightarrow> world" where
  "write_version_log m w =
     w\<lparr>files := AList.update (version_log_path m) (json_dump (version_log m)) (files w)\<rparr>"

text \<open>
  \<open>_save_version_log\<close>: \<open>open(self.version_log_path, 'w')\<close> raises when the path cannot be
  opened, and then nothing is written; otherwise the log is written.
\<close>

definition save_version_log :: "env \<Rightarrow> manager \<Rightarrow> world \<Rightarrow> (error + unit) \<times> world" where
  "save_version_log env m w =
     (case open_raises env (version_log_path m) of
        Some e \<Rightarrow> (Inl e, w)
      | None \<Rightarrow> (Inr (), write_version_log m w))"

text \<open>\<open>_load_version_log\<close>: the decoded file if the path exists, else the empty log.\<close>

definition load_version_log :: "manager \<Rightarrow> world \<Rightarrow> error + manager" where
  "load_version_log m w =
     (case map_of (files w) (version_log_path m) of
        Some contents \<Rightarrow>
          (case json_load contents of
             Inl e \<Rightarrow> Inl e
           | Inr log \<Rightarrow> Inr (m\<lparr>version_log := log\<rparr>))
      | None \<Rightarrow> Inr (m\<lparr>version_log := []\<rparr>))"

text \<open>The constructor: the default log path, then the load.\<close>

definition init :: "string \<Rightarrow> string option \<Rightarrow> world \<Rightarrow> error + manager" where
  "init store version_log_path1 w =
     load_version_log
       \<lparr>store_name = store,
        version_log_path =
          (case version_log_path1 of None \<Rightarrow> store @ ''_versions.json''
           | Some p \<Rightarrow> if p = [] then store @ ''_versions.json'' else p),
        version_log = []\<rparr> w"

text \<open>\<open>_find_document\<close>: the first document of the listing with the display name.\<close>

definition find_document ::
  "env \<Rightarrow> manager \<Rightarrow> string \<Rightarrow> world \<Rightarrow> (error + document option) \<times> world" where
  "find_document env m display_name w =
     (case documents_list env (store_name m) w of
        (Inl e, w1) \<Rightarrow> (Inl e, w1)
      | (Inr pager, w1) \<Rightarrow> (Inr (find (\<lambda>doc. doc_display_name doc = display_name) pager), w1))"

text \<open>
  The polling loop has no bound, so it is a partial function: \<open>None\<close> is the call that
  never returns.
\<close>

partial_function (option) wait_for_operation ::
  "env \<Rightarrow> operation \<Rightarrow> world \<Rightarrow> ((error + operation) \<times> world) option" where
  "wait_for_operation env operation w =
     (if op_done operation then Some (Inr operation, w)
      else case operations_get env operation (sleep 2 w) of
             (Inl e, w1) \<Rightarrow> Some (Inl e, w1)
           | (Inr operation1, w1) \<Rightarrow> wait_for_operation env operation1 w1)"

text \<open>\<open>os.path.basename\<close> on a POSIX path.\<close>

definition basename :: "string \<Rightarrow> string" where
  "basename p = rev (takeWhile (\<lambda>c. c \<noteq> CHR ''/'') (rev p))"

text \<open>\<open>x or y\<close> for an optional string \<open>x\<close>: \<open>None\<close> and the empty string are both falsy.\<close>

definition or_else :: "string option \<Rightarrow> string \<Rightarrow> string" where
  "or_else x y = (case x of None \<Rightarrow> y | Some s \<Rightarrow> if s = [] then y else s)"

text \<open>\<open>x if x else None\<close> for an optional container: the key is set only for a truthy value.\<close>

definition truthy :: "'a list option \<Rightarrow> 'a list option" where
  "truthy x = (case x of None \<Rightarrow> None | Some xs \<Rightarrow> if xs = [] then None else Some xs)"

definition add ::
  "env \<Rightarrow> string \<Rightarrow> string option \<Rightarrow> metadata list option \<Rightarrow> chunking_config option
     \<Rightarrow> manager \<Rightarrow> world \<Rightarrow> ((error + str_dict) \<times> manager \<times> world) option" where
  "add env file_path display_name metadata chunking_config m w =
     (let display_name1 = or_else display_name (basename file_path);
          config = \<lparr>cfg_display_name = display_name1,
                    cfg_custom_metadata = truthy metadata,
                    cfg_chunking_config = truthy chunking_config\<rparr>
      in case upload_to_file_search_store env file_path (store_name m) config w of
           (Inl e, w1) \<Rightarrow> Some (Inl e, m, w1)
         | (Inr operation, w1) \<Rightarrow>
             (case wait_for_operation env operation w1 of
                None \<Rightarrow> None
              | Some (Inl e, w2) \<Rightarrow> Some (Inl e, m, w2)
              | Some (Inr _, w2) \<Rightarrow>
                  (let m1 = m\<lparr>version_log :=
                               AList.update display_name1
                                 [[(''action'', ''added''),
                                   (''timestamp'', isoformat env (now w2)),
                                   (''file_path'', file_path)]]
                                 (version_log m)\<rparr>
                   in case save_version_log env m1 w2 of
                        (Inl e, w3) \<Rightarrow> Some (Inl e, m1, w3)
                      | (Inr _, w3) \<Rightarrow>
                          Some (Inr [(''display_name'', display_name1), (''status'', ''added'')],
                                m1, w3))))"

text \<open>An entry of the \<open>files\<close> argument of \<open>add_batch\<close>: \<open>'path'\<close>, optional \<open>'name'\<close>, \<open>'metadata'\<close>.\<close>

record file_entry =
  entry_path :: string
  entry_name :: "string option"
  entry_metadata :: "metadata list option"

text \<open>The loop of \<open>add_batch\<close>, with \<open>results\<close> as accumulator; any exception of \<open>add\<close> is caught.\<close>

fun add_batch_loop ::
  "env \<Rightarrow> file_entry list \<Rightarrow> str_dict list \<Rightarrow> manager \<Rightarrow> world
     \<Rightarrow> ((error + str_dict list) \<times> manager \<times> world) option" where
  "add_batch_loop env [] results m w = Some (Inr results, m, w)"
| "add_batch_loop env (f # fs) results m w =
     (case add env (entry_path f) (entry_name f) (entry_metadata f) None m w of
        None \<Rightarrow> None
      | Some (Inr result, m1, w1) \<Rightarrow> add_batch_loop env fs (results @ [result]) m1 w1
      | Some (Inl e, m1, w1) \<Rightarrow>
          add_batch_loop env fs
            (results @ [[(''path'', entry_path f), (''status'', ''failed''),
                         (''error'', error_message e)]]) m1 w1)"

definition add_batch ::
  "env \<Rightarrow> file_entry list \<Rightarrow> manager \<Rightarrow> world
     \<Rightarrow> ((error + str_dict list) \<times> manager \<times> world) option" where
  "add_batch env fs m w = add_batch_loop env fs [] m w"

definition remove ::
  "env \<Rightarrow> string \<Rightarrow> manager \<Rightarrow> world \<Rightarrow> (error + bool) \<times> manager \<times> world" where
  "remove env display_name m w =
     (case find_document env m display_name w of
        (Inl e, w1) \<Rightarrow> (Inl e, m, w1)
      | (Inr None, w1) \<Rightarrow> (Inr False, m, w1)
      | (Inr (Some doc), w1) \<Rightarrow>
          (case documents_delete env (doc_name doc) w1 of
             (Inl e, w2) \<Rightarrow> (Inl e, m, w2)
           | (Inr _, w2) \<Rightarrow>
               if map_of (version_log m) display_name \<noteq> None then
                 (let m1 = m\<lparr>version_log :=
                              AList.map_entry display_name
                                (\<lambda>es. es @ [[(''action'', ''removed''),
                                              (''timestamp'', isoformat env (now w2))]])
                                (version_log m)\<rparr>
                  in case save_version_log env m1 w2 of
                       (Inl e, w3) \<Rightarrow> (Inl e, m1, w3)
                     | (Inr _, w3) \<Rightarrow> (Inr True, m1, w3))
               else (Inr True, m, w2)))"

text \<open>The loop of \<open>remove_batch\<close>; an exception of \<open>remove\<close> is not caught.\<close>

fun remove_batch_loop ::
  "env \<Rightarrow> string list \<Rightarrow> string list \<times> string list \<Rightarrow> manager \<Rightarrow> world
     \<Rightarrow> (error + string list \<times> string list) \<times> manager \<times> world" where
  "remove_batch_loop env [] results m w = (Inr results, m, w)"
| "remove_batch_loop env (n # ns) results m w =
     (case remove env n m w of
        (Inl e, m1, w1) \<Rightarrow> (Inl e, m1, w1)
      | (Inr True, m1, w1) \<Rightarrow> remove_batch_loop env ns (fst results @ [n], snd results) m1 w1
      | (Inr False, m1, w1) \<Rightarrow> remove_batch_loop env ns (fst results, snd results @ [n]) m1 w1)"

definition remove_batch ::
  "env \<Rightarrow> string list \<Rightarrow> manager \<Rightarrow> world
     \<Rightarrow> (error + string list \<times> string list) \<times> manager \<times> world" where
  "remove_batch env display_names m w = remove_batch_loop env display_names ([], []) m w"

text \<open>The loop of \<open>clear_all\<close> over the listing, with \<open>count\<close> as accumulator.\<close>

fun clear_all_loop :: "env \<Rightarrow> document list \<Rightarrow> nat \<Rightarrow> world \<Rightarrow> (error + nat) \<times> world" where
  "clear_all_loop env [] count w = (Inr count, w)"
| "clear_all_loop env (doc # pager) count w =
     (case documents_delete env (doc_name doc) w of
        (Inl e, w1) \<Rightarrow> (Inl e, w1)
      | (Inr _, w1) \<Rightarrow> clear_all_loop env pager (count + 1) w1)"

definition clear_all :: "env \<Rightarrow> manager \<Rightarrow> world \<Rightarrow> (error + nat) \<times> manager \<times> world" where
  "clear_all env m w =
     (case documents_list env (store_name m) w of
        (Inl e, w1) \<Rightarrow> (Inl e, m, w1)
      | (Inr pager, w1) \<Rightarrow>
          (case clear_all_loop env pager 0 w1 of (r, w2) \<Rightarrow> (r, m, w2)))"

definition replace ::
  "env \<Rightarrow> string \<Rightarrow> string \<Rightarrow> string option \<Rightarrow> metadata list option
     \<Rightarrow> manager \<Rightarrow> world \<Rightarrow> ((error + str_dict) \<times> manager \<times> world) option" where
  "replace env display_name new_file_path version metadata m w =
     (let version1 = or_else version (strftime env (now w)) in
      case find_document env m display_name w of
        (Inl e, w1) \<Rightarrow> Some (Inl e, m, w1)
      | (Inr existing, w1) \<Rightarrow>
          (case (case existing of
                   None \<Rightarrow> (Inr (), w1)
                 | Some doc \<Rightarrow> documents_delete env (doc_name doc) w1) of
             (Inl e, w2) \<Rightarrow> Some (Inl e, m, w2)
           | (Inr _, w2) \<Rightarrow>
               (let version_metadata =
                      [Metadata ''version'' (StringValue version1)]
                      @ (case truthy metadata of None \<Rightarrow> [] | Some ms \<Rightarrow> ms);
                    config = \<lparr>cfg_display_name = display_name,
                              cfg_custom_metadata = Some version_metadata,
                              cfg_chunking_config = None\<rparr>
                in case upload_to_file_search_store env new_file_path (store_name m) config w2 of
                     (Inl e, w3) \<Rightarrow> Some (Inl e, m, w3)
                   | (Inr operation, w3) \<Rightarrow>
                       (case wait_for_operation env operation w3 of
                          None \<Rightarrow> None
                        | Some (Inl e, w4) \<Rightarrow> Some (Inl e, m, w4)
                        | Some (Inr _, w4) \<Rightarrow>
                            (let log1 = (if map_of (version_log m) display_name = None
                                         then AList.update display_name [] (version_log m)
                                         else version_log m);
                                 m1 = m\<lparr>version_log :=
                                          AList.map_entry display_name
                                            (\<lambda>es. es @ [[(''action'',
                                                           if existing \<noteq> None then ''replaced''
                                                           else ''added''),
                                                          (''version'', version1),
                                                          (''timestamp'', isoformat env (now w4))]])
                                            log1\<rparr>
                             in case save_version_log env m1 w4 of
                                  (Inl e, w5) \<Rightarrow> Some (Inl e, m1, w5)
                                | (Inr _, w5) \<Rightarrow>
                                    Some (Inr [(''display_name'', display_name),
                                               (''version'', version1)],
                                          m1, w5))))))"

text \<open>One dictionary of the result of \<open>list\<close>.\<close>

record document_info =
  info_name :: nat
  info_display_name :: string
  info_state :: string
  info_size_bytes :: nat

definition list_documents ::
  "env \<Rightarrow> manager \<Rightarrow> world \<Rightarrow> (error + document_info list) \<times> manager \<times> world" where
  "list_documents env m w =
     (case documents_list env (store_name m) w of
        (Inl e, w1) \<Rightarrow> (Inl e, m, w1)
      | (Inr pager, w1) \<Rightarrow>
          (Inr (map (\<lambda>doc. \<lparr>info_name = doc_name doc,
                              info_display_name = doc_display_name doc,
                              info_state = doc_state doc,
                              info_size_bytes = doc_size_bytes doc\<rparr>) pager), m, w1))"

definition get_history :: "manager \<Rightarrow> string \<Rightarrow> str_dict list" where
  "get_history m display_name =
     (case map_of (version_log m) display_name of None \<Rightarrow> [] | Some es \<Rightarrow> es)"


section \<open>Notions used in the statements\<close>

text \<open>
  What the polling loop sees: test \<open>0\<close> reads the handle it was given, test \<open>k > 0\<close> reads
  the handle fetched after \<open>k\<close> sleeps of two seconds.
\<close>

definition polled :: "env \<Rightarrow> operation \<Rightarrow> world \<Rightarrow> nat \<Rightarrow> error + bool" where
  "polled env operation w k =
     (if k = 0 then Inr (op_done operation)
      else poll_result env (op_name operation) (now w + 2 * k))"

text \<open>The handle a successful upload returns in the world \<open>w\<close>.\<close>

definition uploaded_operation :: "env \<Rightarrow> world \<Rightarrow> operation" where
  "uploaded_operation env w =
     \<lparr>op_name = next_id w, op_done = (poll_result env (next_id w) (now w) = Inr True)\<rparr>"

text \<open>The upload calls of a trace.\<close>

fun is_upload :: "call \<Rightarrow> bool" where
  "is_upload (Upload f s c) = True"
| "is_upload _ = False"

text \<open>Every operation, polled from any time on, eventually reports done or raises.\<close>

definition settles :: "env \<Rightarrow> bool" where
  "settles env = (\<forall>i t. \<exists>k. poll_result env i (t + 2 * k) \<noteq> Inr False)"

text \<open>
  The batch as the specification words it: \<open>add\<close> is called on each entry in turn, whatever
  the earlier calls did (\<open>add_each\<close>), and the outcome of an entry is the result of its call
  or, for an exception, the dictionary with status \<open>failed\<close> and the message (\<open>outcome\<close>).
\<close>

definition outcome :: "file_entry \<Rightarrow> error + str_dict \<Rightarrow> str_dict" where
  "outcome f r =
     (case r of
        Inr result \<Rightarrow> result
      | Inl e \<Rightarrow> [(''path'', entry_path f), (''status'', ''failed''), (''error'', error_message e)])"

fun add_each ::
  "env \<Rightarrow> file_entry list \<Rightarrow> manager \<Rightarrow> world
     \<Rightarrow> ((error + str_dict) list \<times> manager \<times> world) option" where
  "add_each env [] m w = Some ([], m, w)"
| "add_each env (f # fs) m w =
     (case add env (entry_path f) (entry_name f) (entry_metadata f) None m w of
        None \<Rightarrow> None
      | Some (r, m1, w1) \<Rightarrow>
          (case add_each env fs m1 w1 of
             None \<Rightarrow> None
           | Some (rs, m2, w2) \<Rightarrow> Some (r # rs, m2, w2)))"



section \<open>Example states\<close>

definition example_env :: env where
  "example_env = \<lparr>raises = (\<lambda>c. None), poll_result = (\<lambda>i t. Inr True),
                   open_raises = (\<lambda>p. None),
                   isoformat = (\<lambda>t. ''2025-01-01T00:00:00''),
                   strftime = (\<lambda>t. ''20250101_000000'')\<rparr>"

definition slow_env :: env where
  "slow_env = example_env\<lparr>poll_result := (\<lambda>i t. Inr (104 \<le> t))\<rparr>"

definition stuck_env :: env where
  "stuck_env = example_env\<lparr>poll_result := (\<lambda>i t. Inr False)\<rparr>"

definition readonly_env :: env where
  "readonly_env =
     example_env\<lparr>open_raises := (\<lambda>p. Some (OSError ''[Errno 2] No such file or directory''))\<rparr>"

definition failing_delete_env :: env where
  "failing_delete_env =
     example_env\<lparr>raises := (\<lambda>c. case c of DeleteDocument n \<Rightarrow> Some (ClientError ''503 UNAVAILABLE'')
                                     | _ \<Rightarrow> None)\<rparr>"

definition doc_faq :: document where
  "doc_faq = \<lparr>doc_name = 0, doc_display_name = ''FAQ'', doc_state = ''STATE_ACTIVE'',
              doc_size_bytes = 10, doc_custom_metadata = []\<rparr>"

definition doc_manual :: document where
  "doc_manual = \<lparr>doc_name = 1, doc_display_name = ''Manual'', doc_state = ''STATE_ACTIVE'',
                 doc_size_bytes = 20, doc_custom_metadata = []\<rparr>"

definition doc_manual_copy :: document where
  "doc_manual_copy = \<lparr>doc_name = 2, doc_display_name = ''Manual'', doc_state = ''STATE_ACTIVE'',
                      doc_size_bytes = 30, doc_custom_metadata = []\<rparr>"

definition example_world :: world where
  "example_world = \<lparr>documents = [doc_faq, doc_manual, doc_manual_copy], next_id = 3, calls = [],
                     files = [(''manual.txt'', ''How to reset the device'')], now = 100\<rparr>"

definition example_manager :: manager where
  "example_manager =
     \<lparr>store_name = ''stores/test-repo'', version_log_path = ''versions.json'',
      version_log =
        [(''Manual'',
          [[(''action'', ''added''), (''timestamp'', ''2024-12-30T00:00:00''),
            (''file_path'', ''manual.txt'')],
           [(''action'', ''removed''), (''timestamp'', ''2024-12-31T00:00:00'')]])]\<rparr>"

text \<open>Two entries for \<open>add_batch\<close>: a path that names no file, and an existing one.\<close>

definition missing_entry :: file_entry where
  "missing_entry = \<lparr>entry_path = ''missing.txt'', entry_name = None, entry_metadata = None\<rparr>"

definition manual_entry :: file_entry where
  "manual_entry = \<lparr>entry_path = ''manual.txt'', entry_name = Some ''Guide'', entry_metadata = None\<rparr>"

section \<open>The store backend: basic facts\<close>

lemma record_call_simps [simp]:
  "documents (record_call c w) = documents w"
  "files (record_call c w) = files w"
  "now (record_call c w) = now w"
  "next_id (record_call c w) = next_id w"
  "calls (record_call c w) = calls w @ [c]"
  by (simp_all add: record_call_def)

lemma documents_list_ok:
  "raises env (ListDocuments p) = None \<Longrightarrow>
   documents_list env p w = (Inr (documents w), record_call (ListDocuments p) w)"
  by (simp add: documents_list_def)

lemma documents_list_files: "files (snd (documents_list env p w)) = files w"
  by (simp add: documents_list_def Let_def split: option.splits)

lemma documents_delete_raises:
  "raises env (DeleteDocument n) = Some e \<Longrightarrow>
   documents_delete env n w = (Inl e, record_call (DeleteDocument n) w)"
  by (simp add: documents_delete_def)

lemma documents_delete_ok:
  "raises env (DeleteDocument n) = None \<Longrightarrow> n \<in> doc_name ` set (documents w) \<Longrightarrow>
   documents_delete env n w =
     (Inr (), (record_call (DeleteDocument n) w)\<lparr>documents := filter (\<lambda>d. doc_name d \<noteq> n) (documents w)\<rparr>)"
  by (simp add: documents_delete_def)

lemma find_document_ok:
  "raises env (ListDocuments (store_name m)) = None \<Longrightarrow>
   find_document env m n w =
     (Inr (find (\<lambda>doc. doc_display_name doc = n) (documents w)),
      record_call (ListDocuments (store_name m)) w)"
  by (simp add: find_document_def documents_list_ok)

section \<open>A backend delete that raises\<close>

text \<open>
  Claim C10. When \<open>remove\<close> finds a document named \<open>n\<close> and the backend delete raises,
  the exception reaches the caller, the manager (and so the Version Log in memory) is the
  one passed in, and no file is written: the log is touched only after the delete returned.
\<close>

theorem remove_delete_failure_atomic:
  assumes "raises env (ListDocuments (store_name m)) = None"
      and "find (\<lambda>doc. doc_display_name doc = n) (documents w) = Some doc"
      and "raises env (DeleteDocument (doc_name doc)) = Some e"
  shows "\<exists>w1. remove env n m w = (Inl e, m, w1) \<and> files w1 = files w \<and> documents w1 = documents w"
  using assms
  by (simp add: remove_def find_document_ok documents_delete_raises)

text \<open>
  Claim C8. When \<open>replace\<close> finds a document named \<open>n\<close> and the backend delete of it
  raises, the exception reaches the caller, the calls made are the listing and the delete
  (no upload), and the Version Log is unchanged in memory and on disk.
\<close>

theorem replace_delete_failure:
  assumes "raises env (ListDocuments (store_name m)) = None"
      and "find (\<lambda>doc. doc_display_name doc = n) (documents w) = Some doc"
      and "raises env (DeleteDocument (doc_name doc)) = Some e"
  shows "\<exists>w1. replace env n new_file_path version metadata m w = Some (Inl e, m, w1)
           \<and> files w1 = files w \<and> documents w1 = documents w
           \<and> calls w1 = calls w @ [ListDocuments (store_name m), DeleteDocument (doc_name doc)]"
  using assms
  by (simp add: replace_def find_document_ok documents_delete_raises)

section \<open>Clearing the store\<close>

lemma filter_other_ids:
  "n \<notin> doc_name ` set ds \<Longrightarrow> filter (\<lambda>x. doc_name x \<noteq> n) ds = ds"
  by (induction ds) auto

lemma clear_all_loop_ok:
  "documents w = ds \<Longrightarrow> distinct (map doc_name ds) \<Longrightarrow>
   \<forall>d \<in> set ds. raises env (DeleteDocument (doc_name d)) = None \<Longrightarrow>
   \<exists>w1. clear_all_loop env ds c w = (Inr (c + length ds), w1) \<and> documents w1 = []
        \<and> files w1 = files w"
proof (induction ds arbitrary: w c)
  case Nil
  then show ?case by simp
next
  case (Cons d ds)
  let ?w1 = "(record_call (DeleteDocument (doc_name d)) w)\<lparr>documents := ds\<rparr>"
  have flt: "filter (\<lambda>x. doc_name x \<noteq> doc_name d) (d # ds) = ds"
    using Cons.prems(2) by (simp add: filter_other_ids)
  have del: "documents_delete env (doc_name d) w = (Inr (), ?w1)"
    using Cons.prems flt by (simp add: documents_delete_ok)
  have "\<exists>w2. clear_all_loop env ds (c + 1) ?w1 = (Inr (c + 1 + length ds), w2)
          \<and> documents w2 = [] \<and> files w2 = files ?w1"
    using Cons.prems by (intro Cons.IH) simp_all
  then show ?case using del by auto
qed

text \<open>
  Claim C4. For a store of \<open>K\<close> documents (with distinct backend identifiers, the listing
  and the deletes not raising), \<open>clear_all\<close> returns \<open>K\<close>, leaves no document, leaves the
  manager and the files as they were, and a following \<open>list\<close> is empty. The Version Log plays
  no part.
\<close>

theorem clear_all_count:
  assumes "raises env (ListDocuments (store_name m)) = None"
      and "\<forall>d \<in> set (documents w). raises env (DeleteDocument (doc_name d)) = None"
      and "distinct (map doc_name (documents w))"
  shows "\<exists>w1. clear_all env m w = (Inr (length (documents w)), m, w1)
           \<and> documents w1 = [] \<and> files w1 = files w
           \<and> fst (list_documents env m w1) = Inr []"
proof -
  let ?w0 = "record_call (ListDocuments (store_name m)) w"
  have "\<exists>w1. clear_all_loop env (documents w) 0 ?w0 = (Inr (0 + length (documents w)), w1)
          \<and> documents w1 = [] \<and> files w1 = files ?w0"
    using assms by (intro clear_all_loop_ok) simp_all
  then obtain w1 where w1: "clear_all_loop env (documents w) 0 ?w0 = (Inr (length (documents w)), w1)"
      "documents w1 = []" "files w1 = files w" by auto
  have "clear_all env m w = (Inr (length (documents w)), m, w1)"
    using assms(1) w1(1) by (simp add: clear_all_def documents_list_ok)
  moreover have "fst (list_documents env m w1) = Inr []"
    using assms(1) w1(2) by (simp add: list_documents_def documents_list_ok)
  ultimately show ?thesis using w1 by blast
qed

section \<open>The polling loop\<close>

lemma sleep_simps [simp]:
  "documents (sleep s w) = documents w"
  "files (sleep s w) = files w"
  "now (sleep s w) = now w + s"
  "next_id (sleep s w) = next_id w"
  "calls (sleep s w) = calls w"
  by (simp_all add: sleep_def)

lemma operations_get_sleep:
  "operations_get env operation (sleep 2 w) =
     (case poll_result env (op_name operation) (now w + 2) of
        Inl e \<Rightarrow> (Inl e, record_call (GetOperation (op_name operation)) (sleep 2 w))
      | Inr d \<Rightarrow> (Inr (operation\<lparr>op_done := d\<rparr>),
                  record_call (GetOperation (op_name operation)) (sleep 2 w)))"
  by (simp add: operations_get_def Let_def)

lemma polled_shift:
  "now w1 = now w + 2 \<Longrightarrow> poll_result env (op_name operation) (now w + 2) = Inr d \<Longrightarrow>
   polled env (operation\<lparr>op_done := d\<rparr>) w1 k = polled env operation w (Suc k)"
  by (cases k) (simp_all add: polled_def)

lemma wait_terminates:
  "polled env operation w k \<noteq> Inr False \<Longrightarrow> \<exists>r. wait_for_operation env operation w = Some r"
proof (induction k arbitrary: operation w)
  case 0
  then have "op_done operation" by (simp add: polled_def)
  then show ?case by (subst wait_for_operation.simps) simp
next
  case (Suc k)
  show ?case
  proof (cases "op_done operation")
    case True
    then show ?thesis by (subst wait_for_operation.simps) simp
  next
    case False
    show ?thesis
    proof (cases "poll_result env (op_name operation) (now w + 2)")
      case (Inl e)
      with False show ?thesis
        by (subst wait_for_operation.simps) (simp add: operations_get_sleep)
    next
      case (Inr d)
      let ?w1 = "record_call (GetOperation (op_name operation)) (sleep 2 w)"
      have "polled env (operation\<lparr>op_done := d\<rparr>) ?w1 k = polled env operation w (Suc k)"
        using Inr by (intro polled_shift) simp_all
      with Suc.prems have "polled env (operation\<lparr>op_done := d\<rparr>) ?w1 k \<noteq> Inr False" by simp
      from Suc.IH[OF this] obtain r where
        "wait_for_operation env (operation\<lparr>op_done := d\<rparr>) ?w1 = Some r" by blast
      with False Inr show ?thesis
        by (subst wait_for_operation.simps) (simp add: operations_get_sleep)
    qed
  qed
qed

lemma wait_settled:
  "wait_for_operation env operation w = Some y \<Longrightarrow> \<exists>k. polled env operation w k \<noteq> Inr False"
proof (induct rule: wait_for_operation.raw_induct[rotated 1, consumes 1, case_names step])
  case (step f env operation w y)
  show ?case
  proof (cases "op_done operation")
    case True
    then have "polled env operation w 0 \<noteq> Inr False" by (simp add: polled_def)
    then show ?thesis by blast
  next
    case False
    show ?thesis
    proof (cases "poll_result env (op_name operation) (now w + 2)")
      case (Inl e)
      then have "polled env operation w 1 \<noteq> Inr False" by (simp add: polled_def)
      then show ?thesis by blast
    next
      case (Inr d)
      let ?w1 = "record_call (GetOperation (op_name operation)) (sleep 2 w)"
      from step(2) False Inr have "f env (operation\<lparr>op_done := d\<rparr>) ?w1 = Some y"
        by (simp add: operations_get_sleep)
      from step(1)[OF this] obtain k where k: "polled env (operation\<lparr>op_done := d\<rparr>) ?w1 k \<noteq> Inr False"
        by blast
      have "polled env (operation\<lparr>op_done := d\<rparr>) ?w1 k = polled env operation w (Suc k)"
        using Inr by (intro polled_shift) simp_all
      with k show ?thesis by metis
    qed
  qed
qed

lemma wait_returns_done:
  "wait_for_operation env operation w = Some y \<Longrightarrow>
   (\<forall>operation1. fst y = Inr operation1 \<longrightarrow>
      op_done operation1 \<and> op_name operation1 = op_name operation
      \<and> (\<exists>k. polled env operation w k = Inr True))"
proof (induct rule: wait_for_operation.raw_induct[rotated 1, consumes 1, case_names step])
  case (step f env operation w y)
  show ?case
  proof (cases "op_done operation")
    case True
    with step(2) have y: "y = (Inr operation, w)" by auto
    have "polled env operation w 0 = Inr True" using True by (simp add: polled_def)
    then have "\<exists>k. polled env operation w k = Inr True" ..
    with y True show ?thesis by simp
  next
    case False
    show ?thesis
    proof (cases "poll_result env (op_name operation) (now w + 2)")
      case (Inl e)
      with step(2) False have "fst y = Inl e" by (auto simp: operations_get_sleep)
      then show ?thesis by simp
    next
      case (Inr d)
      let ?w1 = "record_call (GetOperation (op_name operation)) (sleep 2 w)"
      let ?op1 = "operation\<lparr>op_done := d\<rparr>"
      from step(2) False Inr have "f env ?op1 ?w1 = Some y"
        by (simp add: operations_get_sleep)
      note ih = step(1)[OF this]
      have sh: "\<And>k. polled env ?op1 ?w1 k = polled env operation w (Suc k)"
        using Inr by (intro polled_shift) simp_all
      show ?thesis
      proof (intro allI impI)
        fix operation1
        assume "fst y = Inr operation1"
        with ih have d1: "op_done operation1" and n1: "op_name operation1 = op_name ?op1"
          and "\<exists>k. polled env ?op1 ?w1 k = Inr True"
          by blast+
        then obtain k where "polled env ?op1 ?w1 k = Inr True" by blast
        then have "polled env operation w (Suc k) = Inr True" by (simp only: sh)
        then have "\<exists>k. polled env operation w k = Inr True" ..
        with d1 n1 show "op_done operation1 \<and> op_name operation1 = op_name operation
              \<and> (\<exists>k. polled env operation w k = Inr True)"
          by simp
      qed
    qed
  qed
qed

lemma wait_frame:
  "wait_for_operation env operation w = Some y \<Longrightarrow>
   documents (snd y) = documents w \<and> files (snd y) = files w \<and> next_id (snd y) = next_id w
   \<and> filter is_upload (calls (snd y)) = filter is_upload (calls w)"
proof (induct rule: wait_for_operation.raw_induct[rotated 1, consumes 1, case_names step])
  case (step f env operation w y)
  show ?case
  proof (cases "op_done operation")
    case True
    with step(2) show ?thesis by auto
  next
    case False
    show ?thesis
    proof (cases "poll_result env (op_name operation) (now w + 2)")
      case (Inl e)
      with step(2) False show ?thesis by (auto simp: operations_get_sleep)
    next
      case (Inr d)
      let ?w1 = "record_call (GetOperation (op_name operation)) (sleep 2 w)"
      from step(2) False Inr have "f env (operation\<lparr>op_done := d\<rparr>) ?w1 = Some y"
        by (simp add: operations_get_sleep)
      from step(1)[OF this] show ?thesis by simp
    qed
  qed
qed

lemma wait_done: "op_done operation \<Longrightarrow> wait_for_operation env operation w = Some (Inr operation, w)"
  by (subst wait_for_operation.simps) simp

lemma wait_None_iff:
  "wait_for_operation env operation w \<noteq> None \<longleftrightarrow> (\<exists>k. polled env operation w k \<noteq> Inr False)"
  using wait_terminates wait_settled by (metis not_None_eq)

section \<open>Saving the log\<close>

lemma write_version_log_simps [simp]:
  "documents (write_version_log m w) = documents w"
  "calls (write_version_log m w) = calls w"
  "now (write_version_log m w) = now w"
  "next_id (write_version_log m w) = next_id w"
  "files (write_version_log m w) =
     AList.update (version_log_path m) (json_dump (version_log m)) (files w)"
  by (simp_all add: write_version_log_def)

lemma save_version_log_ok:
  "open_raises env (version_log_path m) = None \<Longrightarrow>
   save_version_log env m w = (Inr (), write_version_log m w)"
  by (simp add: save_version_log_def)

lemma save_version_log_raises:
  "open_raises env (version_log_path m) = Some e \<Longrightarrow> save_version_log env m w = (Inl e, w)"
  by (simp add: save_version_log_def)

lemma save_version_log_cases:
  "save_version_log env m w = (r, w1) \<Longrightarrow>
   (\<exists>e. open_raises env (version_log_path m) = Some e \<and> r = Inl e \<and> w1 = w)
   \<or> (open_raises env (version_log_path m) = None \<and> r = Inr () \<and> w1 = write_version_log m w)"
  by (auto simp: save_version_log_def split: option.splits)

section \<open>Upload, add and replace\<close>

lemma upload_missing:
  "map_of (files w) file = None \<Longrightarrow>
   upload_to_file_search_store env file store config w =
     (Inl (FileNotFoundError file), record_call (Upload file store config) w)"
  by (simp add: upload_to_file_search_store_def)

lemma upload_cases:
  "upload_to_file_search_store env file store config w = (r, w1) \<Longrightarrow>
   (\<exists>e. r = Inl e \<and> w1 = record_call (Upload file store config) w)
   \<or> (r = Inr (uploaded_operation env w)
      \<and> documents w1 = documents w @
           [\<lparr>doc_name = next_id w, doc_display_name = cfg_display_name config,
             doc_state = ''STATE_PENDING'', doc_size_bytes = length (the (map_of (files w) file)),
             doc_custom_metadata = (case cfg_custom_metadata config of None \<Rightarrow> [] | Some ms \<Rightarrow> ms)\<rparr>]
      \<and> files w1 = files w \<and> now w1 = now w \<and> next_id w1 = Suc (next_id w)
      \<and> calls w1 = calls w @ [Upload file store config])"
  by (auto simp: upload_to_file_search_store_def uploaded_operation_def Let_def split: option.splits)

lemma upload_ok:
  "map_of (files w) file \<noteq> None \<Longrightarrow> raises env (Upload file store config) = None \<Longrightarrow>
   \<exists>wu. upload_to_file_search_store env file store config w = (Inr (uploaded_operation env w), wu)
        \<and> now wu = now w"
  by (auto simp: upload_to_file_search_store_def uploaded_operation_def Let_def)

lemma polled_now: "now w1 = now w \<Longrightarrow> polled env operation w1 k = polled env operation w k"
  by (simp add: polled_def)

lemma polled_upload_done:
  assumes "polled env (uploaded_operation env w0) w k = Inr True"
  shows "\<exists>t. poll_result env (next_id w0) t = Inr True"
  using assms by (cases k) (auto simp: polled_def uploaded_operation_def)

text \<open>After a successful upload, \<open>add\<close> is the wait followed by the log update and the save.\<close>

lemma add_after_upload:
  assumes "upload_to_file_search_store env file_path (store_name m)
             \<lparr>cfg_display_name = or_else display_name (basename file_path),
              cfg_custom_metadata = truthy metadata,
              cfg_chunking_config = truthy chunking_config\<rparr> w = (Inr operation, wu)"
  shows "(add env file_path display_name metadata chunking_config m w = None)
           = (wait_for_operation env operation wu = None)"
    and "add env file_path display_name metadata chunking_config m w = Some (Inr r, m1, w1) \<Longrightarrow>
           \<exists>operation1 w2. wait_for_operation env operation wu = Some (Inr operation1, w2)"
  using assms
  by (auto simp: add_def Let_def split: option.splits sum.splits prod.splits)

lemma add_Inr_uploaded:
  assumes "add env file_path display_name metadata chunking_config m w = Some (Inr r, m1, w1)"
  shows "\<exists>wu operation1 w2. now wu = now w
           \<and> wait_for_operation env (uploaded_operation env w) wu = Some (Inr operation1, w2)"
proof -
  let ?cfg = "\<lparr>cfg_display_name = or_else display_name (basename file_path),
               cfg_custom_metadata = truthy metadata,
               cfg_chunking_config = truthy chunking_config\<rparr>"
  obtain u wu where u: "upload_to_file_search_store env file_path (store_name m) ?cfg w = (u, wu)"
    by (cases "upload_to_file_search_store env file_path (store_name m) ?cfg w")
  from upload_cases[OF u] assms u have uop: "u = Inr (uploaded_operation env w)" and n: "now wu = now w"
    by (auto simp: add_def Let_def)
  from add_after_upload(2)[OF u[unfolded uop] assms] n show ?thesis by blast
qed

lemma add_returns_done:
  assumes "add env file_path display_name metadata chunking_config m w = Some (Inr r, m1, w1)"
  shows "\<exists>t. poll_result env (next_id w) t = Inr True"
proof -
  from add_Inr_uploaded[OF assms] obtain wu operation1 w2 where
    "wait_for_operation env (uploaded_operation env w) wu = Some (Inr operation1, w2)" by blast
  from wait_returns_done[OF this] obtain k where
    "polled env (uploaded_operation env w) wu k = Inr True" by auto
  then show ?thesis by (rule polled_upload_done)
qed

lemma find_document_cases:
  "find_document env m n w = (r, w1) \<Longrightarrow>
   w1 = record_call (ListDocuments (store_name m)) w
   \<and> (\<forall>x. r = Inr x \<longrightarrow> x = find (\<lambda>doc. doc_display_name doc = n) (documents w))"
  by (auto simp: find_document_def documents_list_def Let_def split: option.splits)

lemma documents_delete_frame:
  "documents_delete env n w = (r, w1) \<Longrightarrow>
   files w1 = files w \<and> next_id w1 = next_id w \<and> now w1 = now w
   \<and> filter is_upload (calls w1) = filter is_upload (calls w)"
  by (auto simp: documents_delete_def Let_def split: option.splits if_splits)

lemma truthy_list: "(case truthy x of None \<Rightarrow> [] | Some ms \<Rightarrow> ms) = (case x of None \<Rightarrow> [] | Some ms \<Rightarrow> ms)"
  by (simp add: truthy_def split: option.splits)

lemma get_history_append:
  "get_history (m\<lparr>version_log := AList.map_entry n (\<lambda>es. es @ [x])
       (if map_of (version_log m) n = None then AList.update n [] (version_log m) else version_log m)\<rparr>) n
   = get_history m n @ [x]"
  by (auto simp: get_history_def map_of_map_entry update_conv' split: option.splits)

text \<open>After the search, the delete and a successful upload, \<open>replace\<close> is the wait followed by
  the log update and the save.\<close>

lemma replace_after_upload:
  assumes "find_document env m n w = (Inr existing, w0)"
      and "(case existing of None \<Rightarrow> (Inr (), w0)
            | Some doc \<Rightarrow> documents_delete env (doc_name doc) w0) = (Inr (), wd)"
      and "upload_to_file_search_store env path (store_name m)
             \<lparr>cfg_display_name = n,
              cfg_custom_metadata =
                Some ([Metadata ''version'' (StringValue (or_else version (strftime env (now w))))]
                      @ (case truthy metadata of None \<Rightarrow> [] | Some ms \<Rightarrow> ms)),
              cfg_chunking_config = None\<rparr> wd = (Inr operation, wu)"
  shows "(replace env n path version metadata m w = None)
           = (wait_for_operation env operation wu = None)"
    and "replace env n path version metadata m w = Some (Inr r, m1, w1) \<Longrightarrow>
           \<exists>operation1 w4. wait_for_operation env operation wu = Some (Inr operation1, w4)
             \<and> m1 = m\<lparr>version_log :=
                       AList.map_entry n
                         (\<lambda>es. es @ [[(''action'', if existing \<noteq> None then ''replaced'' else ''added''),
                                       (''version'', or_else version (strftime env (now w))),
                                       (''timestamp'', isoformat env (now w4))]])
                         (if map_of (version_log m) n = None
                          then AList.update n [] (version_log m) else version_log m)\<rparr>
             \<and> save_version_log env m1 w4 = (Inr (), w1)"
proof -
  have eq: "replace env n path version metadata m w =
    (case wait_for_operation env operation wu of
       None \<Rightarrow> None
     | Some (Inl e, w4) \<Rightarrow> Some (Inl e, m, w4)
     | Some (Inr _, w4) \<Rightarrow>
         (case save_version_log env
                 (m\<lparr>version_log :=
                       AList.map_entry n
                         (\<lambda>es. es @ [[(''action'', if existing \<noteq> None then ''replaced'' else ''added''),
                                       (''version'', or_else version (strftime env (now w))),
                                       (''timestamp'', isoformat env (now w4))]])
                         (if map_of (version_log m) n = None
                          then AList.update n [] (version_log m) else version_log m)\<rparr>) w4 of
            (Inl e, w5) \<Rightarrow>
              Some (Inl e,
                 m\<lparr>version_log :=
                       AList.map_entry n
                         (\<lambda>es. es @ [[(''action'', if existing \<noteq> None then ''replaced'' else ''added''),
                                       (''version'', or_else version (strftime env (now w))),
                                       (''timestamp'', isoformat env (now w4))]])
                         (if map_of (version_log m) n = None
                          then AList.update n [] (version_log m) else version_log m)\<rparr>, w5)
          | (Inr _, w5) \<Rightarrow>
              Some (Inr [(''display_name'', n), (''version'', or_else version (strftime env (now w)))],
                 m\<lparr>version_log :=
                       AList.map_entry n
                         (\<lambda>es. es @ [[(''action'', if existing \<noteq> None then ''replaced'' else ''added''),
                                       (''version'', or_else version (strftime env (now w))),
                                       (''timestamp'', isoformat env (now w4))]])
                         (if map_of (version_log m) n = None
                          then AList.update n [] (version_log m) else version_log m)\<rparr>, w5)))"
    unfolding replace_def Let_def assms(1) prod.case sum.case assms(2) assms(3) ..
  show "(replace env n path version metadata m w = None)
           = (wait_for_operation env operation wu = None)"
    unfolding eq by (auto split: option.splits sum.splits prod.splits)
  show "replace env n path version metadata m w = Some (Inr r, m1, w1) \<Longrightarrow>
           \<exists>operation1 w4. wait_for_operation env operation wu = Some (Inr operation1, w4)
             \<and> m1 = m\<lparr>version_log :=
                       AList.map_entry n
                         (\<lambda>es. es @ [[(''action'', if existing \<noteq> None then ''replaced'' else ''added''),
                                       (''version'', or_else version (strftime env (now w))),
                                       (''timestamp'', isoformat env (now w4))]])
                         (if map_of (version_log m) n = None
                          then AList.update n [] (version_log m) else version_log m)\<rparr>
             \<and> save_version_log env m1 w4 = (Inr (), w1)"
    unfolding eq by (auto split: option.splits sum.splits prod.splits)
qed

lemma wait_first_done:
  "wait_for_operation env operation w = Some y \<Longrightarrow>
   (\<forall>operation1. fst y = Inr operation1 \<longrightarrow>
      (\<exists>k. polled env operation w k = Inr True
           \<and> (\<forall>j<k. polled env operation w j = Inr False)))"
proof (induct rule: wait_for_operation.raw_induct[rotated 1, consumes 1, case_names step])
  case (step f env operation w y)
  show ?case
  proof (cases "op_done operation")
    case True
    have "polled env operation w 0 = Inr True \<and> (\<forall>j<0. polled env operation w j = Inr False)"
      using True by (simp add: polled_def)
    then have "\<exists>k. polled env operation w k = Inr True
                 \<and> (\<forall>j<k. polled env operation w j = Inr False)" ..
    then show ?thesis by simp
  next
    case False
    show ?thesis
    proof (cases "poll_result env (op_name operation) (now w + 2)")
      case (Inl e)
      with step(2) False have "fst y = Inl e" by (auto simp: operations_get_sleep)
      then show ?thesis by simp
    next
      case (Inr d)
      let ?w1 = "record_call (GetOperation (op_name operation)) (sleep 2 w)"
      let ?op1 = "operation\<lparr>op_done := d\<rparr>"
      from step(2) False Inr have "f env ?op1 ?w1 = Some y"
        by (simp add: operations_get_sleep)
      note ih = step(1)[OF this]
      have sh: "\<And>k. polled env ?op1 ?w1 k = polled env operation w (Suc k)"
        using Inr by (intro polled_shift) simp_all
      have p0: "polled env operation w 0 = Inr False" using False by (simp add: polled_def)
      show ?thesis
      proof (intro allI impI)
        fix operation1
        assume "fst y = Inr operation1"
        with ih obtain k where k: "polled env ?op1 ?w1 k = Inr True"
          and lt: "\<forall>j<k. polled env ?op1 ?w1 j = Inr False"
          by blast
        from k have 1: "polled env operation w (Suc k) = Inr True" by (simp only: sh)
        have 2: "\<forall>j<Suc k. polled env operation w j = Inr False"
        proof (intro allI impI)
          fix j assume j: "j < Suc k"
          show "polled env operation w j = Inr False"
          proof (cases j)
            case 0
            with p0 show ?thesis by simp
          next
            case (Suc i)
            with j have "i < k" by simp
            with lt have "polled env ?op1 ?w1 i = Inr False" by blast
            then show ?thesis unfolding Suc by (simp only: sh)
          qed
        qed
        from 1 2 show "\<exists>k. polled env operation w k = Inr True
                 \<and> (\<forall>j<k. polled env operation w j = Inr False)" by blast
      qed
    qed
  qed
qed

lemma wait_None_pending:
  "(wait_for_operation env operation w = None) = (\<forall>k. polled env operation w k = Inr False)"
  using wait_None_iff[of env operation w] by blast

lemma replace_success:
  assumes "replace env n path version metadata m w = Some (Inr r, m1, w1)"
  shows "filter is_upload (calls w1) = filter is_upload (calls w) @
           [Upload path (store_name m)
              \<lparr>cfg_display_name = n,
                cfg_custom_metadata =
                  Some (Metadata ''version'' (StringValue (or_else version (strftime env (now w))))
                        # (case metadata of None \<Rightarrow> [] | Some ms \<Rightarrow> ms)),
                cfg_chunking_config = None\<rparr>]"
    and "doc_display_name (last (documents w1)) = n"
    and "doc_custom_metadata (last (documents w1)) =
           Metadata ''version'' (StringValue (or_else version (strftime env (now w))))
           # (case metadata of None \<Rightarrow> [] | Some ms \<Rightarrow> ms)"
    and "get_history m1 n = get_history m n @
           [[(''action'', if find (\<lambda>doc. doc_display_name doc = n) (documents w) \<noteq> None
                          then ''replaced'' else ''added''),
             (''version'', or_else version (strftime env (now w))),
             (''timestamp'', isoformat env (now w1))]]"
    and "\<exists>wu operation1 w4. now wu = now w
           \<and> wait_for_operation env (uploaded_operation env w) wu = Some (Inr operation1, w4)"
proof -
  let ?v = "or_else version (strftime env (now w))"
  let ?vm = "Metadata ''version'' (StringValue ?v) # (case metadata of None \<Rightarrow> [] | Some ms \<Rightarrow> ms)"
  let ?existing = "find (\<lambda>doc. doc_display_name doc = n) (documents w)"
  let ?cfgt = "\<lparr>cfg_display_name = n,
              cfg_custom_metadata =
                Some ([Metadata ''version'' (StringValue ?v)]
                      @ (case truthy metadata of None \<Rightarrow> [] | Some ms \<Rightarrow> ms)),
              cfg_chunking_config = None\<rparr>"
  let ?cfg = "\<lparr>cfg_display_name = n, cfg_custom_metadata = Some ?vm, cfg_chunking_config = None\<rparr>"
  have cfg: "?cfgt = ?cfg" by (simp add: truthy_list)
  let ?w0 = "record_call (ListDocuments (store_name m)) w"
  obtain fr wf where f: "find_document env m n w = (fr, wf)"
    by (cases "find_document env m n w")
  from f assms have "\<exists>x. fr = Inr x"
    by (cases fr) (simp_all add: replace_def Let_def)
  with find_document_cases[OF f] have f': "find_document env m n w = (Inr ?existing, ?w0)"
    using f by auto
  obtain dr wd where d: "(case ?existing of None \<Rightarrow> (Inr (), ?w0)
                          | Some doc \<Rightarrow> documents_delete env (doc_name doc) ?w0) = (dr, wd)"
    by (cases "(case ?existing of None \<Rightarrow> (Inr (), ?w0)
                | Some doc \<Rightarrow> documents_delete env (doc_name doc) ?w0)")
  have wd: "files wd = files w \<and> next_id wd = next_id w \<and> now wd = now w
            \<and> filter is_upload (calls wd) = filter is_upload (calls w)"
    using d documents_delete_frame[of env _ ?w0 dr wd]
    by (cases ?existing) auto
  from f' d assms have dr': "dr = Inr ()"
    by (cases dr) (simp_all add: replace_def Let_def)
  note d' = d[unfolded dr']
  obtain u wu where u: "upload_to_file_search_store env path (store_name m) ?cfgt wd = (u, wu)"
    by (cases "upload_to_file_search_store env path (store_name m) ?cfgt wd")
  have "\<exists>operation. u = Inr operation"
  proof (cases u)
    case (Inl e)
    from f' d' u have "replace env n path version metadata m w = Some (Inl e, m, wu)"
      unfolding Inl by (simp add: replace_def Let_def)
    with assms show ?thesis by simp
  next
    case (Inr operation)
    then show ?thesis by blast
  qed
  with upload_cases[OF u] have
    uop: "u = Inr (uploaded_operation env wd)"
    and wu: "documents wu = documents wd @
           [\<lparr>doc_name = next_id wd, doc_display_name = n,
             doc_state = ''STATE_PENDING'', doc_size_bytes = length (the (map_of (files wd) path)),
             doc_custom_metadata = ?vm\<rparr>]"
         "calls wu = calls wd @ [Upload path (store_name m) ?cfg]"
         "now wu = now wd"
    unfolding cfg by auto
  have uo: "uploaded_operation env wd = uploaded_operation env w"
    using wd by (simp add: uploaded_operation_def)
  note u' = u[unfolded uop uo]
  from replace_after_upload(2)[OF f' d' u' assms] obtain op1 w4 where
    wt: "wait_for_operation env (uploaded_operation env w) wu = Some (Inr op1, w4)"
    and m1: "m1 = m\<lparr>version_log := AList.map_entry n
                 (\<lambda>es. es @ [[(''action'', if ?existing \<noteq> None then ''replaced'' else ''added''),
                               (''version'', ?v), (''timestamp'', isoformat env (now w4))]])
                 (if map_of (version_log m) n = None
                  then AList.update n [] (version_log m) else version_log m)\<rparr>"
    and sv: "save_version_log env m1 w4 = (Inr (), w1)"
    by blast
  from save_version_log_cases[OF sv] have w1: "w1 = write_version_log m1 w4" by simp
  from wait_frame[OF wt] have fr4: "documents w4 = documents wu"
    "filter is_upload (calls w4) = filter is_upload (calls wu)" by simp_all
  have w1s: "documents w1 = documents w4" "calls w1 = calls w4" "now w1 = now w4"
    by (simp_all add: w1)
  show "filter is_upload (calls w1) = filter is_upload (calls w) @ [Upload path (store_name m) ?cfg]"
    using w1s fr4 wu wd by simp
  show "doc_display_name (last (documents w1)) = n"
    using w1s fr4 wu by simp
  show "doc_custom_metadata (last (documents w1)) = ?vm"
    using w1s fr4 wu by simp
  show "get_history m1 n = get_history m n @
           [[(''action'', if ?existing \<noteq> None then ''replaced'' else ''added''),
             (''version'', ?v), (''timestamp'', isoformat env (now w1))]]"
    unfolding m1 w1s by (rule get_history_append)
  from wt wu(3) wd show "\<exists>wu operation1 w4. now wu = now w
           \<and> wait_for_operation env (uploaded_operation env w) wu = Some (Inr operation1, w4)"
    by auto
qed

lemma replace_returns_done:
  assumes "replace env n path version metadata m w = Some (Inr r, m1, w1)"
  shows "\<exists>t. poll_result env (next_id w) t = Inr True"
proof -
  from replace_success(5)[OF assms] obtain wu operation1 w4 where
    "wait_for_operation env (uploaded_operation env w) wu = Some (Inr operation1, w4)" by blast
  from wait_returns_done[OF this] obtain k where
    "polled env (uploaded_operation env w) wu k = Inr True" by auto
  then show ?thesis by (rule polled_upload_done)
qed

text \<open>When the steps before the wait go through, \<open>add\<close> and \<open>replace\<close> end exactly when the
  wait on the handle of their upload ends.\<close>

lemma add_None_pending:
  assumes "map_of (files w) file_path \<noteq> None"
      and "raises env (Upload file_path (store_name m)
             \<lparr>cfg_display_name = or_else display_name (basename file_path),
              cfg_custom_metadata = truthy metadata,
              cfg_chunking_config = truthy chunking_config\<rparr>) = None"
  shows "(add env file_path display_name metadata chunking_config m w = None)
           = (\<forall>k. polled env (uploaded_operation env w) w k = Inr False)"
proof -
  from upload_ok[OF assms] obtain wu where
    u: "upload_to_file_search_store env file_path (store_name m)
             \<lparr>cfg_display_name = or_else display_name (basename file_path),
              cfg_custom_metadata = truthy metadata,
              cfg_chunking_config = truthy chunking_config\<rparr> w = (Inr (uploaded_operation env w), wu)"
    and n: "now wu = now w" by blast
  show ?thesis
    unfolding add_after_upload(1)[OF u] wait_None_pending polled_now[OF n] ..
qed

lemma replace_None_pending:
  assumes "raises env (ListDocuments (store_name m)) = None"
      and "\<forall>doc. find (\<lambda>doc. doc_display_name doc = n) (documents w) = Some doc
                 \<longrightarrow> raises env (DeleteDocument (doc_name doc)) = None"
      and "map_of (files w) path \<noteq> None"
      and "raises env (Upload path (store_name m)
             \<lparr>cfg_display_name = n,
              cfg_custom_metadata =
                Some ([Metadata ''version'' (StringValue (or_else version (strftime env (now w))))]
                      @ (case truthy metadata of None \<Rightarrow> [] | Some ms \<Rightarrow> ms)),
              cfg_chunking_config = None\<rparr>) = None"
  shows "(replace env n path version metadata m w = None)
           = (\<forall>k. polled env (uploaded_operation env w) w k = Inr False)"
proof -
  let ?w0 = "record_call (ListDocuments (store_name m)) w"
  let ?existing = "find (\<lambda>doc. doc_display_name doc = n) (documents w)"
  let ?cfgt = "\<lparr>cfg_display_name = n,
              cfg_custom_metadata =
                Some ([Metadata ''version'' (StringValue (or_else version (strftime env (now w))))]
                      @ (case truthy metadata of None \<Rightarrow> [] | Some ms \<Rightarrow> ms)),
              cfg_chunking_config = None\<rparr>"
  have f: "find_document env m n w = (Inr ?existing, ?w0)"
    using assms(1) by (rule find_document_ok)
  have "\<exists>wd. (case ?existing of None \<Rightarrow> (Inr (), ?w0)
                | Some doc \<Rightarrow> documents_delete env (doc_name doc) ?w0) = (Inr (), wd)
             \<and> files wd = files w \<and> next_id wd = next_id w \<and> now wd = now w"
  proof (cases ?existing)
    case None
    then show ?thesis by simp
  next
    case (Some doc)
    then have "doc \<in> set (documents w)" by (auto simp: find_Some_iff in_set_conv_nth)
    then have "doc_name doc \<in> doc_name ` set (documents ?w0)" by simp
    with assms(2) Some show ?thesis by (simp add: documents_delete_ok)
  qed
  then obtain wd where d: "(case ?existing of None \<Rightarrow> (Inr (), ?w0)
                | Some doc \<Rightarrow> documents_delete env (doc_name doc) ?w0) = (Inr (), wd)"
    and wd: "files wd = files w" "next_id wd = next_id w" "now wd = now w" by blast
  have uo: "uploaded_operation env wd = uploaded_operation env w"
    using wd by (simp add: uploaded_operation_def)
  from assms(3) wd have "map_of (files wd) path \<noteq> None" by simp
  from upload_ok[OF this assms(4)] obtain wu where
    u: "upload_to_file_search_store env path (store_name m) ?cfgt wd = (Inr (uploaded_operation env w), wu)"
    and n: "now wu = now w" unfolding uo using wd by auto
  show ?thesis
    unfolding replace_after_upload(1)[OF f d u] wait_None_pending polled_now[OF n] ..
qed

section \<open>The batch\<close>

lemma add_terminates:
  assumes "settles env"
  shows "add env file_path display_name metadata chunking_config m w \<noteq> None"
proof -
  let ?cfg = "\<lparr>cfg_display_name = or_else display_name (basename file_path),
               cfg_custom_metadata = truthy metadata,
               cfg_chunking_config = truthy chunking_config\<rparr>"
  obtain u wu where u: "upload_to_file_search_store env file_path (store_name m) ?cfg w = (u, wu)"
    by (cases "upload_to_file_search_store env file_path (store_name m) ?cfg w")
  show ?thesis
  proof (cases u)
    case (Inl e)
    with u show ?thesis by (simp add: add_def Let_def)
  next
    case (Inr operation)
    from assms obtain k where "poll_result env (op_name operation) (now wu + 2 + 2 * k) \<noteq> Inr False"
      unfolding settles_def by blast
    then have "polled env operation wu (Suc k) \<noteq> Inr False" by (simp add: polled_def)
    then obtain y where "wait_for_operation env operation wu = Some y"
      using wait_terminates by blast
    with add_after_upload(1)[OF u[unfolded Inr]] show ?thesis by simp
  qed
qed

lemma add_each_terminates:
  "settles env \<Longrightarrow> add_each env fs m w \<noteq> None"
proof (induction fs arbitrary: m w)
  case Nil
  then show ?case by simp
next
  case (Cons f fs)
  from add_terminates[OF Cons.prems] obtain r m1 w1 where
    "add env (entry_path f) (entry_name f) (entry_metadata f) None m w = Some (r, m1, w1)"
    by (metis not_None_eq prod_cases3)
  moreover from Cons.IH[OF Cons.prems] obtain rs m2 w2 where
    "add_each env fs m1 w1 = Some (rs, m2, w2)"
    by (metis not_None_eq prod_cases3)
  ultimately show ?case by simp
qed

lemma add_each_length:
  "add_each env fs m w = Some (rs, m1, w1) \<Longrightarrow> length rs = length fs"
  by (induction fs arbitrary: m w rs) (auto split: option.splits)

lemma add_batch_loop_each:
  "add_batch_loop env fs results m w =
     (case add_each env fs m w of
        None \<Rightarrow> None
      | Some (rs, m1, w1) \<Rightarrow> Some (Inr (results @ map (\<lambda>(f, r). outcome f r) (zip fs rs)), m1, w1))"
proof (induction fs arbitrary: results m w)
  case Nil
  then show ?case by simp
next
  case (Cons f fs)
  show ?case
  proof (cases "add env (entry_path f) (entry_name f) (entry_metadata f) None m w")
    case None
    then show ?thesis by simp
  next
    case (Some y)
    obtain r m1 w1 where y: "y = (r, m1, w1)" by (cases y)
    show ?thesis
      using Some y Cons.IH
      by (cases r) (auto simp: outcome_def split: option.splits)
  qed
qed

text \<open>
  Claim C5. \<open>add_batch\<close> is the sequential run of \<open>add\<close> over the entries, each result
  turned into its outcome, in input order: it never ends in an exception, the list returned
  is as long as the input, and it returns whenever every poll sequence settles.
\<close>

theorem add_batch_never_raises:
  "add_batch env fs m w =
     (case add_each env fs m w of
        None \<Rightarrow> None
      | Some (rs, m1, w1) \<Rightarrow> Some (Inr (map (\<lambda>(f, r). outcome f r) (zip fs rs)), m1, w1))
   \<and> (\<forall>e m1 w1. add_batch env fs m w \<noteq> Some (Inl e, m1, w1))
   \<and> (\<forall>outs m1 w1. add_batch env fs m w = Some (Inr outs, m1, w1) \<longrightarrow> length outs = length fs)
   \<and> (settles env \<longrightarrow> add_batch env fs m w \<noteq> None)"
proof -
  have eq: "add_batch env fs m w =
     (case add_each env fs m w of
        None \<Rightarrow> None
      | Some (rs, m1, w1) \<Rightarrow> Some (Inr (map (\<lambda>(f, r). outcome f r) (zip fs rs)), m1, w1))"
    by (simp add: add_batch_def add_batch_loop_each split: option.splits)
  have "\<forall>e m1 w1. add_batch env fs m w \<noteq> Some (Inl e, m1, w1)"
    unfolding eq by (auto split: option.splits)
  moreover have "\<forall>outs m1 w1. add_batch env fs m w = Some (Inr outs, m1, w1) \<longrightarrow> length outs = length fs"
    unfolding eq by (auto split: option.splits dest: add_each_length)
  moreover have "settles env \<longrightarrow> add_batch env fs m w \<noteq> None"
    unfolding eq using add_each_terminates[of env fs m w] by (auto split: option.splits)
  ultimately show ?thesis using eq by blast
qed

section \<open>The operations at the example states\<close>

lemmas example_defs = example_env_def slow_env_def stuck_env_def readonly_env_def
  failing_delete_env_def
  doc_faq_def doc_manual_def doc_manual_copy_def example_world_def example_manager_def

theorem remove_delete_failure_witness:
  "raises failing_delete_env (ListDocuments (store_name example_manager)) = None
   \<and> find (\<lambda>doc. doc_display_name doc = ''Manual'') (documents example_world) = Some doc_manual
   \<and> raises failing_delete_env (DeleteDocument (doc_name doc_manual)) = Some (ClientError ''503 UNAVAILABLE'')
   \<and> (\<exists>w1. remove failing_delete_env ''Manual'' example_manager example_world
               = (Inl (ClientError ''503 UNAVAILABLE''), example_manager, w1)
            \<and> files w1 = files example_world \<and> documents w1 = documents example_world)"
proof -
  have h1: "raises failing_delete_env (ListDocuments (store_name example_manager)) = None"
    by (simp add: example_defs)
  have h2: "find (\<lambda>doc. doc_display_name doc = ''Manual'') (documents example_world) = Some doc_manual"
    by (simp add: example_defs)
  have h3: "raises failing_delete_env (DeleteDocument (doc_name doc_manual)) = Some (ClientError ''503 UNAVAILABLE'')"
    by (simp add: example_defs)
  from remove_delete_failure_atomic[OF h1 h2 h3] h1 h2 h3 show ?thesis by blast
qed

theorem replace_delete_failure_witness:
  "raises failing_delete_env (ListDocuments (store_name example_manager)) = None
   \<and> find (\<lambda>doc. doc_display_name doc = ''Manual'') (documents example_world) = Some doc_manual
   \<and> raises failing_delete_env (DeleteDocument (doc_name doc_manual)) = Some (ClientError ''503 UNAVAILABLE'')
   \<and> (\<exists>w1. replace failing_delete_env ''Manual'' ''manual.txt'' (Some ''2.0'') None
                 example_manager example_world
               = Some (Inl (ClientError ''503 UNAVAILABLE''), example_manager, w1)
            \<and> files w1 = files example_world \<and> documents w1 = documents example_world
            \<and> calls w1 = calls example_world @
                 [ListDocuments (store_name example_manager), DeleteDocument (doc_name doc_manual)])"
proof -
  have h1: "raises failing_delete_env (ListDocuments (store_name example_manager)) = None"
    by (simp add: example_defs)
  have h2: "find (\<lambda>doc. doc_display_name doc = ''Manual'') (documents example_world) = Some doc_manual"
    by (simp add: example_defs)
  have h3: "raises failing_delete_env (DeleteDocument (doc_name doc_manual)) = Some (ClientError ''503 UNAVAILABLE'')"
    by (simp add: example_defs)
  from replace_delete_failure[OF h1 h2 h3] h1 h2 h3 show ?thesis by blast
qed

lemma find_first:
  "n \<notin> doc_display_name ` set pre \<Longrightarrow> doc_display_name d = n \<Longrightarrow>
   find (\<lambda>doc. doc_display_name doc = n) (pre @ d # post) = Some d"
  by (induction pre) auto

lemma find_None_names:
  "n \<notin> doc_display_name ` set ds \<Longrightarrow> find (\<lambda>doc. doc_display_name doc = n) ds = None"
  by (auto simp: find_None_iff)

text \<open>
  Claim C2. With a listing that does not raise: if no document has display name \<open>n\<close>,
  \<open>remove\<close> returns \<open>False\<close>, issues no delete and changes neither the documents, the
  manager nor the files. If some document has it, let \<open>doc\<close> be the first in listing order
  (\<open>pre\<close> holds no match); when its delete does not raise, the store holds \<open>pre @ post\<close>,
  and a \<open>removed\<close> entry is appended exactly when \<open>n\<close> is a key of the Version Log:
  without the key \<open>remove\<close> returns \<open>True\<close> with manager and files unchanged; with the key
  the entry is appended and the log saved, \<open>remove\<close> returning \<open>True\<close> when the log file can
  be opened. When it cannot, the exception of \<open>open\<close> reaches the caller after the delete
  and the append in memory, and no file is written.
\<close>

theorem remove_first_match:
  assumes "raises env (ListDocuments (store_name m)) = None"
  shows "(n \<notin> doc_display_name ` set (documents w) \<longrightarrow>
            (\<exists>w1. remove env n m w = (Inr False, m, w1) \<and> documents w1 = documents w
               \<and> files w1 = files w \<and> calls w1 = calls w @ [ListDocuments (store_name m)]))
       \<and> (documents w = pre @ doc # post \<and> n \<notin> doc_display_name ` set pre
            \<and> doc_display_name doc = n \<and> distinct (map doc_name (documents w))
            \<and> raises env (DeleteDocument (doc_name doc)) = None \<longrightarrow>
            (\<exists>r m1 w1. remove env n m w = (r, m1, w1) \<and> documents w1 = pre @ post
               \<and> calls w1 = calls w @ [ListDocuments (store_name m), DeleteDocument (doc_name doc)]
               \<and> (map_of (version_log m) n = None \<longrightarrow>
                    r = Inr True \<and> m1 = m \<and> files w1 = files w)
               \<and> (map_of (version_log m) n \<noteq> None \<longrightarrow>
                    version_log m1 = AList.map_entry n
                       (\<lambda>es. es @ [[(''action'', ''removed''), (''timestamp'', isoformat env (now w))]])
                       (version_log m)
                    \<and> (open_raises env (version_log_path m) = None \<longrightarrow>
                          r = Inr True
                          \<and> files w1 = AList.update (version_log_path m)
                                         (json_dump (version_log m1)) (files w))
                    \<and> (\<forall>e. open_raises env (version_log_path m) = Some e \<longrightarrow>
                          r = Inl e \<and> files w1 = files w))))"
proof (intro conjI impI)
  assume "n \<notin> doc_display_name ` set (documents w)"
  then have "find (\<lambda>doc. doc_display_name doc = n) (documents w) = None"
    by (rule find_None_names)
  then show "\<exists>w1. remove env n m w = (Inr False, m, w1) \<and> documents w1 = documents w
               \<and> files w1 = files w \<and> calls w1 = calls w @ [ListDocuments (store_name m)]"
    using assms by (simp add: remove_def find_document_ok)
next
  assume a: "documents w = pre @ doc # post \<and> n \<notin> doc_display_name ` set pre
            \<and> doc_display_name doc = n \<and> distinct (map doc_name (documents w))
            \<and> raises env (DeleteDocument (doc_name doc)) = None"
  let ?w0 = "record_call (ListDocuments (store_name m)) w"
  let ?wd = "(record_call (DeleteDocument (doc_name doc)) ?w0)\<lparr>documents := pre @ post\<rparr>"
  let ?m1 = "m\<lparr>version_log := AList.map_entry n
               (\<lambda>es. es @ [[(''action'', ''removed''), (''timestamp'', isoformat env (now w))]])
               (version_log m)\<rparr>"
  from a have fnd: "find (\<lambda>doc. doc_display_name doc = n) (documents w) = Some doc"
    by (simp add: find_first)
  from a have "doc_name doc \<notin> doc_name ` set pre" "doc_name doc \<notin> doc_name ` set post"
    by auto
  then have flt: "filter (\<lambda>d. doc_name d \<noteq> doc_name doc) (documents w) = pre @ post"
    using a by (simp add: filter_other_ids)
  have del: "documents_delete env (doc_name doc) ?w0 = (Inr (), ?wd)"
    using a flt by (simp add: documents_delete_ok)
  have wd: "documents ?wd = pre @ post" "files ?wd = files w" "now ?wd = now w"
    "calls ?wd = calls w @ [ListDocuments (store_name m), DeleteDocument (doc_name doc)]"
    by simp_all
  show "\<exists>r m1 w1. remove env n m w = (r, m1, w1) \<and> documents w1 = pre @ post
               \<and> calls w1 = calls w @ [ListDocuments (store_name m), DeleteDocument (doc_name doc)]
               \<and> (map_of (version_log m) n = None \<longrightarrow>
                    r = Inr True \<and> m1 = m \<and> files w1 = files w)
               \<and> (map_of (version_log m) n \<noteq> None \<longrightarrow>
                    version_log m1 = AList.map_entry n
                       (\<lambda>es. es @ [[(''action'', ''removed''), (''timestamp'', isoformat env (now w))]])
                       (version_log m)
                    \<and> (open_raises env (version_log_path m) = None \<longrightarrow>
                          r = Inr True
                          \<and> files w1 = AList.update (version_log_path m)
                                         (json_dump (version_log m1)) (files w))
                    \<and> (\<forall>e. open_raises env (version_log_path m) = Some e \<longrightarrow>
                          r = Inl e \<and> files w1 = files w))"
  proof (cases "map_of (version_log m) n")
    case None
    then have "remove env n m w = (Inr True, m, ?wd)"
      using assms fnd del by (simp add: remove_def find_document_ok)
    with None wd show ?thesis by simp
  next
    case (Some es)
    show ?thesis
    proof (cases "open_raises env (version_log_path m)")
      case None
      have "remove env n m w = (Inr True, ?m1, write_version_log ?m1 ?wd)"
        using assms fnd del Some None
        by (simp add: remove_def find_document_ok save_version_log_def Let_def)
      with Some None show ?thesis by simp
    next
      case (Some e)
      have "remove env n m w = (Inl e, ?m1, ?wd)"
        using assms fnd del \<open>map_of (version_log m) n = Some es\<close> Some
        by (simp add: remove_def find_document_ok save_version_log_def Let_def)
      with \<open>map_of (version_log m) n = Some es\<close> Some show ?thesis by simp
    qed
  qed
qed

theorem remove_first_match_witness:
  "(\<exists>w1. remove example_env ''Guide'' example_manager example_world = (Inr False, example_manager, w1)
       \<and> documents w1 = documents example_world \<and> files w1 = files example_world
       \<and> calls w1 = [ListDocuments ''stores/test-repo''])
   \<and> (\<exists>m1 w1. remove example_env ''Manual'' example_manager example_world = (Inr True, m1, w1)
       \<and> documents w1 = [doc_faq, doc_manual_copy]
       \<and> calls w1 = [ListDocuments ''stores/test-repo'', DeleteDocument 1]
       \<and> get_history m1 ''Manual'' = get_history example_manager ''Manual'' @
            [[(''action'', ''removed''), (''timestamp'', ''2025-01-01T00:00:00'')]]
       \<and> files w1 = AList.update ''versions.json'' (json_dump (version_log m1)) (files example_world))
   \<and> (\<exists>w1. remove example_env ''FAQ'' example_manager example_world = (Inr True, example_manager, w1)
       \<and> documents w1 = [doc_manual, doc_manual_copy] \<and> files w1 = files example_world)
   \<and> (\<exists>m1 w1. remove readonly_env ''Manual'' example_manager example_world
                  = (Inl (OSError ''[Errno 2] No such file or directory''), m1, w1)
       \<and> documents w1 = [doc_faq, doc_manual_copy]
       \<and> get_history m1 ''Manual'' = get_history example_manager ''Manual'' @
            [[(''action'', ''removed''), (''timestamp'', ''2025-01-01T00:00:00'')]]
       \<and> files w1 = files example_world)"
proof -
  have h: "raises example_env (ListDocuments (store_name example_manager)) = None"
    and hr: "raises readonly_env (ListDocuments (store_name example_manager)) = None"
    by (simp_all add: example_defs)
  have a: "''Guide'' \<notin> doc_display_name ` set (documents example_world)"
    by (simp add: example_defs)
  have b: "documents example_world = [doc_faq] @ doc_manual # [doc_manual_copy]
       \<and> ''Manual'' \<notin> doc_display_name ` set [doc_faq]
       \<and> doc_display_name doc_manual = ''Manual'' \<and> distinct (map doc_name (documents example_world))
       \<and> raises example_env (DeleteDocument (doc_name doc_manual)) = None"
    by (simp add: example_defs)
  have br: "documents example_world = [doc_faq] @ doc_manual # [doc_manual_copy]
       \<and> ''Manual'' \<notin> doc_display_name ` set [doc_faq]
       \<and> doc_display_name doc_manual = ''Manual'' \<and> distinct (map doc_name (documents example_world))
       \<and> raises readonly_env (DeleteDocument (doc_name doc_manual)) = None"
    by (simp add: example_defs)
  have c: "documents example_world = [] @ doc_faq # [doc_manual, doc_manual_copy]
       \<and> ''FAQ'' \<notin> doc_display_name ` set []
       \<and> doc_display_name doc_faq = ''FAQ'' \<and> distinct (map doc_name (documents example_world))
       \<and> raises example_env (DeleteDocument (doc_name doc_faq)) = None"
    by (simp add: example_defs)
  have la: "map_of (version_log example_manager) ''Manual'' \<noteq> None"
    and lc: "map_of (version_log example_manager) ''FAQ'' = None"
    and op: "open_raises example_env (version_log_path example_manager) = None"
    and opr: "open_raises readonly_env (version_log_path example_manager)
                = Some (OSError ''[Errno 2] No such file or directory'')"
    by (simp_all add: example_defs)
  have vals: "store_name example_manager = ''stores/test-repo''" "doc_name doc_manual = 1"
    "calls example_world = []" "version_log_path example_manager = ''versions.json''"
    "isoformat example_env (now example_world) = ''2025-01-01T00:00:00''"
    "isoformat readonly_env (now example_world) = ''2025-01-01T00:00:00''"
    by (simp_all add: example_defs)
  from remove_first_match[OF h, where n = "''Guide''" and w = example_world] a
  have 1: "\<exists>w1. remove example_env ''Guide'' example_manager example_world = (Inr False, example_manager, w1)
       \<and> documents w1 = documents example_world \<and> files w1 = files example_world
       \<and> calls w1 = [ListDocuments ''stores/test-repo'']"
    by (simp add: vals)
  from remove_first_match[OF h, where n = "''Manual''" and w = example_world and pre = "[doc_faq]"
      and doc = doc_manual and post = "[doc_manual_copy]"] b la op
  obtain r m1 w1 where r: "remove example_env ''Manual'' example_manager example_world = (r, m1, w1)"
     "documents w1 = [doc_faq] @ [doc_manual_copy]"
     "calls w1 = calls example_world @ [ListDocuments (store_name example_manager), DeleteDocument (doc_name doc_manual)]"
     "version_log m1 = AList.map_entry ''Manual''
                       (\<lambda>es. es @ [[(''action'', ''removed''), (''timestamp'', isoformat example_env (now example_world))]])
                       (version_log example_manager)"
     "r = Inr True"
     "files w1 = AList.update (version_log_path example_manager)
                                         (json_dump (version_log m1)) (files example_world)"
    by blast
  have 2: "\<exists>m1 w1. remove example_env ''Manual'' example_manager example_world = (Inr True, m1, w1)
       \<and> documents w1 = [doc_faq, doc_manual_copy]
       \<and> calls w1 = [ListDocuments ''stores/test-repo'', DeleteDocument 1]
       \<and> get_history m1 ''Manual'' = get_history example_manager ''Manual'' @
            [[(''action'', ''removed''), (''timestamp'', ''2025-01-01T00:00:00'')]]
       \<and> files w1 = AList.update ''versions.json'' (json_dump (version_log m1)) (files example_world)"
  proof -
    have "get_history m1 ''Manual'' = get_history example_manager ''Manual'' @
            [[(''action'', ''removed''), (''timestamp'', ''2025-01-01T00:00:00'')]]"
      using r(4) by (simp add: get_history_def example_defs)
    with r show ?thesis by (simp add: vals)
  qed
  from remove_first_match[OF h, where n = "''FAQ''" and w = example_world and pre = "[]"
      and doc = doc_faq and post = "[doc_manual, doc_manual_copy]"] c lc
  have 3: "\<exists>w1. remove example_env ''FAQ'' example_manager example_world = (Inr True, example_manager, w1)
       \<and> documents w1 = [doc_manual, doc_manual_copy] \<and> files w1 = files example_world"
    by auto
  from remove_first_match[OF hr, where n = "''Manual''" and w = example_world and pre = "[doc_faq]"
      and doc = doc_manual and post = "[doc_manual_copy]"] br la opr
  obtain r2 m2 w2 where r2: "remove readonly_env ''Manual'' example_manager example_world = (r2, m2, w2)"
     "documents w2 = [doc_faq] @ [doc_manual_copy]"
     "version_log m2 = AList.map_entry ''Manual''
                       (\<lambda>es. es @ [[(''action'', ''removed''), (''timestamp'', isoformat readonly_env (now example_world))]])
                       (version_log example_manager)"
     "r2 = Inl (OSError ''[Errno 2] No such file or directory'')"
     "files w2 = files example_world"
    by blast
  have 4: "\<exists>m1 w1. remove readonly_env ''Manual'' example_manager example_world
                  = (Inl (OSError ''[Errno 2] No such file or directory''), m1, w1)
       \<and> documents w1 = [doc_faq, doc_manual_copy]
       \<and> get_history m1 ''Manual'' = get_history example_manager ''Manual'' @
            [[(''action'', ''removed''), (''timestamp'', ''2025-01-01T00:00:00'')]]
       \<and> files w1 = files example_world"
  proof -
    have "get_history m2 ''Manual'' = get_history example_manager ''Manual'' @
            [[(''action'', ''removed''), (''timestamp'', ''2025-01-01T00:00:00'')]]"
      using r2(3) by (simp add: get_history_def example_defs)
    with r2 show ?thesis by simp
  qed
  from 1 2 3 4 show ?thesis by blast
qed

theorem clear_all_count_witness:
  "raises example_env (ListDocuments (store_name example_manager)) = None
   \<and> distinct (map doc_name (documents example_world))
   \<and> length (documents example_world) = 3
   \<and> (\<exists>w1. clear_all example_env example_manager example_world = (Inr 3, example_manager, w1)
          \<and> documents w1 = [] \<and> files w1 = files example_world
          \<and> fst (list_documents example_env example_manager w1) = Inr [])"
proof -
  have h1: "raises example_env (ListDocuments (store_name example_manager)) = None"
    by (simp add: example_defs)
  have h2: "\<forall>d \<in> set (documents example_world). raises example_env (DeleteDocument (doc_name d)) = None"
    by (simp add: example_defs)
  have h3: "distinct (map doc_name (documents example_world))"
    by (simp add: example_defs)
  have h4: "length (documents example_world) = 3"
    by (simp add: example_defs)
  from clear_all_count[OF h1 h2 h3] h1 h3 h4 show ?thesis by simp
qed

lemma settles_example: "settles example_env"
  by (simp add: settles_def example_env_def)

lemma add_missing:
  "map_of (files w) file_path = None \<Longrightarrow>
   add env file_path display_name metadata chunking_config m w =
     Some (Inl (FileNotFoundError file_path), m,
           record_call (Upload file_path (store_name m)
              \<lparr>cfg_display_name = or_else display_name (basename file_path),
                cfg_custom_metadata = truthy metadata,
                cfg_chunking_config = truthy chunking_config\<rparr>) w)"
  by (simp add: add_def Let_def upload_missing)

theorem add_batch_never_raises_witness:
  "settles example_env
   \<and> (\<exists>r m1 w1. add_batch example_env [missing_entry, manual_entry] example_manager example_world
         = Some (Inr [outcome missing_entry (Inl (FileNotFoundError ''missing.txt'')),
                      outcome manual_entry r], m1, w1))"
proof -
  let ?b = "add_batch example_env [missing_entry, manual_entry] example_manager example_world"
  note t = add_batch_never_raises[of example_env "[missing_entry, manual_entry]" example_manager example_world]
  from t settles_example have "?b \<noteq> None" by blast
  then obtain rs m1 w1 where e: "add_each example_env [missing_entry, manual_entry] example_manager example_world = Some (rs, m1, w1)"
    and b: "?b = Some (Inr (map (\<lambda>(f, r). outcome f r) (zip [missing_entry, manual_entry] rs)), m1, w1)"
    using t by (auto split: option.splits)
  have m: "map_of (files example_world) ''missing.txt'' = None"
    by (simp add: example_defs)
  note am = add_missing[OF m, of example_env None None None example_manager]
  from e obtain r where "rs = [Inl (FileNotFoundError ''missing.txt''), r]"
    by (auto simp: am missing_entry_def split: option.splits)
  with b settles_example show ?thesis by auto
qed

text \<open>
  Claim C3. For every call of \<open>replace\<close> that returns: the one upload it made carries the
  metadata list that starts with the version entry and continues with the caller's entries
  in their order (so does the document created), and the entry appended to the history of
  \<open>n\<close> has action \<open>replaced\<close> exactly when the search before the upload found a document
  named \<open>n\<close>, else \<open>added\<close>; the Version Log is not consulted for that choice.
\<close>

theorem replace_metadata_and_action:
  assumes "replace env n path version metadata m w = Some (Inr r, m1, w1)"
  shows "filter is_upload (calls w1) = filter is_upload (calls w) @
           [Upload path (store_name m)
              \<lparr>cfg_display_name = n,
                cfg_custom_metadata =
                  Some (Metadata ''version'' (StringValue (or_else version (strftime env (now w))))
                        # (case metadata of None \<Rightarrow> [] | Some ms \<Rightarrow> ms)),
                cfg_chunking_config = None\<rparr>]
       \<and> doc_display_name (last (documents w1)) = n
       \<and> doc_custom_metadata (last (documents w1)) =
           Metadata ''version'' (StringValue (or_else version (strftime env (now w))))
           # (case metadata of None \<Rightarrow> [] | Some ms \<Rightarrow> ms)
       \<and> get_history m1 n = get_history m n @
           [[(''action'', if find (\<lambda>doc. doc_display_name doc = n) (documents w) \<noteq> None
                          then ''replaced'' else ''added''),
             (''version'', or_else version (strftime env (now w))),
             (''timestamp'', isoformat env (now w1))]]"
  using replace_success(1-4)[OF assms] by simp

lemma wait_example:
  "wait_for_operation example_env \<lparr>op_name = i, op_done = True\<rparr> w
     = Some (Inr \<lparr>op_name = i, op_done = True\<rparr>, w)"
  by (simp add: wait_done)

theorem replace_metadata_and_action_witness:
  "(\<exists>r m1 w1.
     replace example_env ''Manual'' ''manual.txt'' (Some ''2.0'')
       (Some [Metadata ''category'' (StringValue ''tutorial'')]) example_manager example_world
       = Some (Inr r, m1, w1)
     \<and> doc_custom_metadata (last (documents w1)) =
           [Metadata ''version'' (StringValue ''2.0''), Metadata ''category'' (StringValue ''tutorial'')]
     \<and> get_history m1 ''Manual'' = get_history example_manager ''Manual'' @
           [[(''action'', ''replaced''), (''version'', ''2.0''),
             (''timestamp'', isoformat example_env (now w1))]])
   \<and> (\<exists>r m1 w1.
     replace example_env ''FAQ'' ''manual.txt'' None None example_manager example_world
       = Some (Inr r, m1, w1)
     \<and> get_history example_manager ''FAQ'' = []
     \<and> get_history m1 ''FAQ'' =
           [[(''action'', ''replaced''), (''version'', ''20250101_000000''),
             (''timestamp'', isoformat example_env (now w1))]])
   \<and> (\<exists>r m1 w1.
     replace example_env ''Guide'' ''manual.txt'' None None example_manager example_world
       = Some (Inr r, m1, w1)
     \<and> doc_custom_metadata (last (documents w1)) =
           [Metadata ''version'' (StringValue ''20250101_000000'')]
     \<and> get_history m1 ''Guide'' =
           [[(''action'', ''added''), (''version'', ''20250101_000000''),
             (''timestamp'', isoformat example_env (now w1))]])"
proof -
  note ev = replace_def find_document_def documents_list_def documents_delete_def
        upload_to_file_search_store_def record_call_def Let_def or_else_def truthy_def
        wait_done save_version_log_def example_defs
  have "\<exists>r m1 w1. replace example_env ''Manual'' ''manual.txt'' (Some ''2.0'')
       (Some [Metadata ''category'' (StringValue ''tutorial'')]) example_manager example_world
       = Some (Inr r, m1, w1)"
    by (simp add: ev)
  then obtain r m1 w1 where e: "replace example_env ''Manual'' ''manual.txt'' (Some ''2.0'')
       (Some [Metadata ''category'' (StringValue ''tutorial'')]) example_manager example_world
       = Some (Inr r, m1, w1)" by blast
  have f: "find (\<lambda>doc. doc_display_name doc = ''Manual'') (documents example_world) \<noteq> None"
    by (simp add: example_defs)
  from replace_metadata_and_action[OF e] f
  have "doc_custom_metadata (last (documents w1)) =
           [Metadata ''version'' (StringValue ''2.0''), Metadata ''category'' (StringValue ''tutorial'')]
     \<and> get_history m1 ''Manual'' = get_history example_manager ''Manual'' @
           [[(''action'', ''replaced''), (''version'', ''2.0''),
             (''timestamp'', isoformat example_env (now w1))]]"
    by (simp add: or_else_def)
  with e have 1: "\<exists>r m1 w1.
     replace example_env ''Manual'' ''manual.txt'' (Some ''2.0'')
       (Some [Metadata ''category'' (StringValue ''tutorial'')]) example_manager example_world
       = Some (Inr r, m1, w1)
     \<and> doc_custom_metadata (last (documents w1)) =
           [Metadata ''version'' (StringValue ''2.0''), Metadata ''category'' (StringValue ''tutorial'')]
     \<and> get_history m1 ''Manual'' = get_history example_manager ''Manual'' @
           [[(''action'', ''replaced''), (''version'', ''2.0''),
             (''timestamp'', isoformat example_env (now w1))]]" by blast
  have "\<exists>r m1 w1. replace example_env ''FAQ'' ''manual.txt'' None None example_manager example_world
       = Some (Inr r, m1, w1)"
    by (simp add: ev)
  then obtain r2 m2 w2 where e2: "replace example_env ''FAQ'' ''manual.txt'' None None
       example_manager example_world = Some (Inr r2, m2, w2)" by blast
  have f2: "find (\<lambda>doc. doc_display_name doc = ''FAQ'') (documents example_world) \<noteq> None"
    and h2: "get_history example_manager ''FAQ'' = []"
    and s2: "strftime example_env (now example_world) = ''20250101_000000''"
    by (simp_all add: example_defs get_history_def)
  from replace_metadata_and_action[OF e2] f2 h2 s2
  have "get_history m2 ''FAQ'' =
           [[(''action'', ''replaced''), (''version'', ''20250101_000000''),
             (''timestamp'', isoformat example_env (now w2))]]"
    by (simp add: or_else_def)
  with e2 h2 have 2: "\<exists>r m1 w1.
     replace example_env ''FAQ'' ''manual.txt'' None None example_manager example_world
       = Some (Inr r, m1, w1)
     \<and> get_history example_manager ''FAQ'' = []
     \<and> get_history m1 ''FAQ'' =
           [[(''action'', ''replaced''), (''version'', ''20250101_000000''),
             (''timestamp'', isoformat example_env (now w1))]]" by blast
  have "\<exists>r m1 w1. replace example_env ''Guide'' ''manual.txt'' None None example_manager example_world
       = Some (Inr r, m1, w1)"
    by (simp add: ev)
  then obtain r3 m3 w3 where e3: "replace example_env ''Guide'' ''manual.txt'' None None
       example_manager example_world = Some (Inr r3, m3, w3)" by blast
  have f3: "find (\<lambda>doc. doc_display_name doc = ''Guide'') (documents example_world) = None"
    and h3: "get_history example_manager ''Guide'' = []"
    by (simp_all add: example_defs get_history_def)
  from replace_metadata_and_action[OF e3] f3 h3 s2
  have "doc_custom_metadata (last (documents w3)) =
           [Metadata ''version'' (StringValue ''20250101_000000'')]
     \<and> get_history m3 ''Guide'' =
           [[(''action'', ''added''), (''version'', ''20250101_000000''),
             (''timestamp'', isoformat example_env (now w3))]]"
    by (simp add: or_else_def)
  with e3 have 3: "\<exists>r m1 w1.
     replace example_env ''Guide'' ''manual.txt'' None None example_manager example_world
       = Some (Inr r, m1, w1)
     \<and> doc_custom_metadata (last (documents w1)) =
           [Metadata ''version'' (StringValue ''20250101_000000'')]
     \<and> get_history m1 ''Guide'' =
           [[(''action'', ''added''), (''version'', ''20250101_000000''),
             (''timestamp'', isoformat example_env (now w1))]]" by blast
  from 1 2 3 show ?thesis by blast
qed

text \<open>
  Claim C9. The wait has no timeout: it ends exactly when some test of the polled sequence
  is not "pending" (it reports done, or the poll raises); it returns a handle only if a poll
  reported done, and that handle is done; so with a sequence that is "pending" for ever the
  call never returns. \<open>add\<close> and \<open>replace\<close> wait on the handle of their own upload: they
  return a result only after the first test of that handle that is not "pending" reported
  done, and once the upload is made (the steps before it not raising) they never end, with
  a result or with an exception, exactly when every test of that handle is "pending".
\<close>

theorem wait_blocks_until_done:
  "(wait_for_operation env operation w \<noteq> None \<longleftrightarrow> (\<exists>k. polled env operation w k \<noteq> Inr False))
   \<and> (\<forall>operation1 w1. wait_for_operation env operation w = Some (Inr operation1, w1) \<longrightarrow>
          op_done operation1 \<and> (\<exists>k. polled env operation w k = Inr True))
   \<and> (\<forall>r m1 w1. add env file_path display_name metadata chunking_config m w = Some (Inr r, m1, w1) \<longrightarrow>
          (\<exists>t. poll_result env (next_id w) t = Inr True))
   \<and> (\<forall>r m1 w1. replace env n new_file_path version metadata1 m w = Some (Inr r, m1, w1) \<longrightarrow>
          (\<exists>t. poll_result env (next_id w) t = Inr True))
   \<and> (\<forall>operation1 w1. wait_for_operation env operation w = Some (Inr operation1, w1) \<longrightarrow>
          (\<exists>k. polled env operation w k = Inr True \<and> (\<forall>j<k. polled env operation w j = Inr False)))
   \<and> (\<forall>r m1 w1. add env file_path display_name metadata chunking_config m w = Some (Inr r, m1, w1) \<longrightarrow>
          (\<exists>k. polled env (uploaded_operation env w) w k = Inr True
               \<and> (\<forall>j<k. polled env (uploaded_operation env w) w j = Inr False)))
   \<and> (map_of (files w) file_path \<noteq> None
        \<and> raises env (Upload file_path (store_name m)
              \<lparr>cfg_display_name = or_else display_name (basename file_path),
                cfg_custom_metadata = truthy metadata,
                cfg_chunking_config = truthy chunking_config\<rparr>) = None \<longrightarrow>
          (add env file_path display_name metadata chunking_config m w = None)
            = (\<forall>k. polled env (uploaded_operation env w) w k = Inr False))
   \<and> (\<forall>r m1 w1. replace env n new_file_path version metadata1 m w = Some (Inr r, m1, w1) \<longrightarrow>
          (\<exists>k. polled env (uploaded_operation env w) w k = Inr True
               \<and> (\<forall>j<k. polled env (uploaded_operation env w) w j = Inr False)))
   \<and> (raises env (ListDocuments (store_name m)) = None
        \<and> (\<forall>doc. find (\<lambda>doc. doc_display_name doc = n) (documents w) = Some doc
                 \<longrightarrow> raises env (DeleteDocument (doc_name doc)) = None)
        \<and> map_of (files w) new_file_path \<noteq> None
        \<and> raises env (Upload new_file_path (store_name m)
              \<lparr>cfg_display_name = n,
                cfg_custom_metadata =
                  Some ([Metadata ''version'' (StringValue (or_else version (strftime env (now w))))]
                        @ (case truthy metadata1 of None \<Rightarrow> [] | Some ms \<Rightarrow> ms)),
                cfg_chunking_config = None\<rparr>) = None \<longrightarrow>
          (replace env n new_file_path version metadata1 m w = None)
            = (\<forall>k. polled env (uploaded_operation env w) w k = Inr False))"
proof (intro conjI allI impI)
  show "wait_for_operation env operation w \<noteq> None \<longleftrightarrow> (\<exists>k. polled env operation w k \<noteq> Inr False)"
    by (rule wait_None_iff)
next
  fix operation1 w1
  assume a: "wait_for_operation env operation w = Some (Inr operation1, w1)"
  from wait_returns_done[OF a] show "op_done operation1" by simp
  from wait_returns_done[OF a] show "\<exists>k. polled env operation w k = Inr True" by simp
next
  fix r m1 w1
  assume "add env file_path display_name metadata chunking_config m w = Some (Inr r, m1, w1)"
  then show "\<exists>t. poll_result env (next_id w) t = Inr True" by (rule add_returns_done)
next
  fix r m1 w1
  assume "replace env n new_file_path version metadata1 m w = Some (Inr r, m1, w1)"
  then show "\<exists>t. poll_result env (next_id w) t = Inr True" by (rule replace_returns_done)
next
  fix operation1 w1
  assume a: "wait_for_operation env operation w = Some (Inr operation1, w1)"
  from wait_first_done[OF a]
  show "\<exists>k. polled env operation w k = Inr True \<and> (\<forall>j<k. polled env operation w j = Inr False)"
    by simp
next
  fix r m1 w1
  assume "add env file_path display_name metadata chunking_config m w = Some (Inr r, m1, w1)"
  from add_Inr_uploaded[OF this] obtain wu operation1 w2 where n: "now wu = now w"
    and wt: "wait_for_operation env (uploaded_operation env w) wu = Some (Inr operation1, w2)"
    by blast
  from wait_first_done[OF wt]
  show "\<exists>k. polled env (uploaded_operation env w) w k = Inr True
           \<and> (\<forall>j<k. polled env (uploaded_operation env w) w j = Inr False)"
    unfolding polled_now[OF n] by simp
next
  assume "map_of (files w) file_path \<noteq> None
        \<and> raises env (Upload file_path (store_name m)
              \<lparr>cfg_display_name = or_else display_name (basename file_path),
                cfg_custom_metadata = truthy metadata,
                cfg_chunking_config = truthy chunking_config\<rparr>) = None"
  then show "(add env file_path display_name metadata chunking_config m w = None)
            = (\<forall>k. polled env (uploaded_operation env w) w k = Inr False)"
    by (intro add_None_pending) simp_all
next
  fix r m1 w1
  assume "replace env n new_file_path version metadata1 m w = Some (Inr r, m1, w1)"
  from replace_success(5)[OF this] obtain wu operation1 w4 where n: "now wu = now w"
    and wt: "wait_for_operation env (uploaded_operation env w) wu = Some (Inr operation1, w4)"
    by blast
  from wait_first_done[OF wt]
  show "\<exists>k. polled env (uploaded_operation env w) w k = Inr True
           \<and> (\<forall>j<k. polled env (uploaded_operation env w) w j = Inr False)"
    unfolding polled_now[OF n] by simp
next
  assume "raises env (ListDocuments (store_name m)) = None
        \<and> (\<forall>doc. find (\<lambda>doc. doc_display_name doc = n) (documents w) = Some doc
                 \<longrightarrow> raises env (DeleteDocument (doc_name doc)) = None)
        \<and> map_of (files w) new_file_path \<noteq> None
        \<and> raises env (Upload new_file_path (store_name m)
              \<lparr>cfg_display_name = n,
                cfg_custom_metadata =
                  Some ([Metadata ''version'' (StringValue (or_else version (strftime env (now w))))]
                        @ (case truthy metadata1 of None \<Rightarrow> [] | Some ms \<Rightarrow> ms)),
                cfg_chunking_config = None\<rparr>) = None"
  then show "(replace env n new_file_path version metadata1 m w = None)
            = (\<forall>k. polled env (uploaded_operation env w) w k = Inr False)"
    by (intro replace_None_pending) simp_all
qed

theorem wait_blocks_until_done_witness:
  "polled slow_env \<lparr>op_name = 3, op_done = False\<rparr> example_world 2 = Inr True
   \<and> wait_for_operation slow_env \<lparr>op_name = 3, op_done = False\<rparr> example_world \<noteq> None
   \<and> wait_for_operation stuck_env \<lparr>op_name = 3, op_done = False\<rparr> example_world = None
   \<and> add stuck_env ''manual.txt'' None None None example_manager example_world = None
   \<and> add slow_env ''manual.txt'' None None None example_manager example_world \<noteq> None
   \<and> replace stuck_env ''Manual'' ''manual.txt'' None None example_manager example_world = None
   \<and> replace slow_env ''Manual'' ''manual.txt'' None None example_manager example_world \<noteq> None"
proof -
  let ?op = "\<lparr>op_name = 3, op_done = False\<rparr>"
  have uo: "uploaded_operation slow_env example_world = ?op"
    "uploaded_operation stuck_env example_world = ?op"
    by (simp_all add: uploaded_operation_def example_defs)
  have p: "polled slow_env ?op example_world 2 = Inr True"
    by (simp add: polled_def example_defs)
  then have ex: "\<exists>k. polled slow_env ?op example_world k \<noteq> Inr False"
    by (intro exI[of _ 2]) simp
  have all: "\<forall>k. polled stuck_env ?op example_world k = Inr False"
    by (simp add: polled_def example_defs)
  have pre_add: "\<And>env. env = slow_env \<or> env = stuck_env \<Longrightarrow>
      map_of (files example_world) ''manual.txt'' \<noteq> None
        \<and> raises env (Upload ''manual.txt'' (store_name example_manager)
              \<lparr>cfg_display_name = or_else None (basename ''manual.txt''),
                cfg_custom_metadata = truthy None,
                cfg_chunking_config = truthy None\<rparr>) = None"
    by (auto simp: example_defs)
  have pre_rep: "\<And>env. env = slow_env \<or> env = stuck_env \<Longrightarrow>
      raises env (ListDocuments (store_name example_manager)) = None
        \<and> (\<forall>doc. find (\<lambda>doc. doc_display_name doc = ''Manual'') (documents example_world) = Some doc
                 \<longrightarrow> raises env (DeleteDocument (doc_name doc)) = None)
        \<and> map_of (files example_world) ''manual.txt'' \<noteq> None
        \<and> raises env (Upload ''manual.txt'' (store_name example_manager)
              \<lparr>cfg_display_name = ''Manual'',
                cfg_custom_metadata =
                  Some ([Metadata ''version'' (StringValue (or_else None (strftime env (now example_world))))]
                        @ (case truthy None of None \<Rightarrow> [] | Some ms \<Rightarrow> ms)),
                cfg_chunking_config = None\<rparr>) = None"
    by (auto simp: example_defs)
  note t1 = wait_blocks_until_done[of slow_env ?op example_world "''manual.txt''" None None None
      example_manager "''Manual''" "''manual.txt''" None None]
  note t2 = wait_blocks_until_done[of stuck_env ?op example_world "''manual.txt''" None None None
      example_manager "''Manual''" "''manual.txt''" None None]
  note c2 = conjunct2
  from t1[THEN conjunct1] ex have 1: "wait_for_operation slow_env ?op example_world \<noteq> None"
    by blast
  from t2[THEN conjunct1] all have 2: "wait_for_operation stuck_env ?op example_world = None"
    by blast
  note add_stuck = t2[THEN c2, THEN c2, THEN c2, THEN c2, THEN c2, THEN c2, THEN conjunct1,
      unfolded uo, rule_format, OF pre_add[of stuck_env]]
  note add_slow = t1[THEN c2, THEN c2, THEN c2, THEN c2, THEN c2, THEN c2, THEN conjunct1,
      unfolded uo, rule_format, OF pre_add[of slow_env]]
  note rep_stuck = t2[THEN c2, THEN c2, THEN c2, THEN c2, THEN c2, THEN c2, THEN c2, THEN c2,
      unfolded uo, rule_format, OF pre_rep[of stuck_env]]
  note rep_slow = t1[THEN c2, THEN c2, THEN c2, THEN c2, THEN c2, THEN c2, THEN c2, THEN c2,
      unfolded uo, rule_format, OF pre_rep[of slow_env]]
  have 3: "add stuck_env ''manual.txt'' None None None example_manager example_world = None"
    using add_stuck all by simp
  have "\<not> (\<forall>k. polled slow_env ?op example_world k = Inr False)" using ex by blast
  then have 4: "add slow_env ''manual.txt'' None None None example_manager example_world \<noteq> None"
    using add_slow by simp
  have 5: "replace stuck_env ''Manual'' ''manual.txt'' None None example_manager example_world = None"
    using rep_stuck all by simp
  have "\<not> (\<forall>k. polled slow_env ?op example_world k = Inr False)" using ex by blast
  then have 6: "replace slow_env ''Manual'' ''manual.txt'' None None example_manager example_world \<noteq> None"
    using rep_slow by simp
  from p 1 2 3 4 5 6 show ?thesis by blast
qed

text \<open>
  Claim C7, as amended. \<open>add\<close> makes no check of its own: for a path that names no local
  file its first and only backend call is the upload, which raises the file-not-found
  error; the error reaches the caller, nothing is polled, and the manager, the files and
  the documents are unchanged.
\<close>

theorem add_missing_file:
  assumes "map_of (files w) file_path = None"
  shows "\<exists>w1. add env file_path display_name metadata chunking_config m w
              = Some (Inl (FileNotFoundError file_path), m, w1)
           \<and> calls w1 = calls w @
                [Upload file_path (store_name m)
                   \<lparr>cfg_display_name = or_else display_name (basename file_path),
                     cfg_custom_metadata = truthy metadata,
                     cfg_chunking_config = truthy chunking_config\<rparr>]
           \<and> files w1 = files w \<and> documents w1 = documents w"
  using add_missing[OF assms] by simp

theorem add_missing_file_witness:
  "map_of (files example_world) ''missing.txt'' = None
   \<and> (\<exists>w1. add example_env ''missing.txt'' None None None example_manager example_world
              = Some (Inl (FileNotFoundError ''missing.txt''), example_manager, w1)
           \<and> files w1 = files example_world \<and> documents w1 = documents example_world)"
proof -
  have h: "map_of (files example_world) ''missing.txt'' = None" by (simp add: example_defs)
  from add_missing_file[OF h, of example_env None None None example_manager] h
  show ?thesis by blast
qed

text \<open>
  Claim C7 as stated fails: the error is not raised before any backend call. At the
  example state, with no call made before, the trace after \<open>add\<close> on a missing path holds
  the upload call.
\<close>

theorem add_missing_file_calls_backend:
  "map_of (files example_world) ''missing.txt'' = None
   \<and> calls example_world = []
   \<and> map_option (calls \<circ> snd \<circ> snd)
        (add example_env ''missing.txt'' None None None example_manager example_world)
       = Some [Upload ''missing.txt'' ''stores/test-repo''
                 \<lparr>cfg_display_name = ''missing.txt'', cfg_custom_metadata = None,
                   cfg_chunking_config = None\<rparr>]"
  by (simp add: add_def upload_to_file_search_store_def record_call_def Let_def or_else_def
      truthy_def basename_def example_defs)

text \<open>
  Claim C1 says that \<open>add\<close> appends an \<open>added\<close> entry after the existing history of the
  name. The code assigns a fresh one-entry list instead: at the example state the name
  \<open>Manual\<close> has two entries before a successful \<open>add\<close> and one after it.
\<close>

theorem add_discards_history:
  "get_history example_manager ''Manual'' =
     [[(''action'', ''added''), (''timestamp'', ''2024-12-30T00:00:00''), (''file_path'', ''manual.txt'')],
      [(''action'', ''removed''), (''timestamp'', ''2024-12-31T00:00:00'')]]
   \<and> map_option (fst \<circ> snd)
        (add example_env ''manual.txt'' (Some ''Manual'') None None example_manager example_world)
       = Some (example_manager\<lparr>version_log :=
                 [(''Manual'', [[(''action'', ''added''), (''timestamp'', ''2025-01-01T00:00:00''),
                                 (''file_path'', ''manual.txt'')]])]\<rparr>)"
  by (simp add: get_history_def add_def upload_to_file_search_store_def record_call_def Let_def
      or_else_def truthy_def wait_done save_version_log_def example_defs)

section \<open>Decoding what was encoded\<close>

lemma skip_ws_indent [simp]: "skip_ws (indent l @ s) = skip_ws s"
  by (simp add: skip_ws_def indent_def is_ws_def dropWhile_append)

lemma skip_ws_newline [simp]: "skip_ws (CHR 0x0A # s) = skip_ws s"
  by (simp add: skip_ws_def is_ws_def)

lemma skip_ws_space [simp]: "skip_ws (CHR '' '' # s) = skip_ws s"
  by (simp add: skip_ws_def is_ws_def)

lemma skip_ws_stop: "\<not> is_ws c \<Longrightarrow> skip_ws (c # s) = c # s"
  by (simp add: skip_ws_def)

lemma skip_ws_marks [simp]:
  "skip_ws (CHR 0x22 # s) = CHR 0x22 # s"
  "skip_ws (CHR ''['' # s) = CHR ''['' # s"
  "skip_ws (CHR '']'' # s) = CHR '']'' # s"
  "skip_ws (CHR ''{'' # s) = CHR ''{'' # s"
  "skip_ws (CHR ''}'' # s) = CHR ''}'' # s"
  "skip_ws (CHR '','' # s) = CHR '','' # s"
  "skip_ws (CHR '':'' # s) = CHR '':'' # s"
  by (simp_all add: skip_ws_def is_ws_def)

lemma dumps_head:
  "\<exists>c t. dumps l v = c # t \<and> (c = CHR 0x22 \<or> c = CHR ''['' \<or> c = CHR ''{'')"
  by (cases v) (simp_all add: encode_string_def)

lemma skip_ws_dumps [simp]: "skip_ws (dumps l v @ s) = dumps l v @ s"
proof -
  from dumps_head[of l v] obtain c t where "dumps l v = c # t"
    "c = CHR 0x22 \<or> c = CHR ''['' \<or> c = CHR ''{''" by blast
  then show ?thesis by auto
qed

lemma hex_value_digit: "d < 16 \<Longrightarrow> hex_value (hex_digit d) = Some d"
  by (auto simp: hex_value_def hex_digit_def Let_def)

lemma hex_value_zero: "hex_value (CHR ''0'') = Some 0"
  by (simp add: hex_value_def)

lemma decode_escape:
  "decode_uXXXX [CHR ''0'', CHR ''0'', hex_digit (of_char c div 16), hex_digit (of_char c mod 16)]
     = Some c"
proof -
  have "(of_char c :: nat) < 256" by simp
  then have "(of_char c :: nat) div 16 < 16" by arith
  moreover have "(of_char c :: nat) mod 16 < 16" by simp
  moreover have "of_char c div 16 * 16 + of_char c mod 16 = (of_char c :: nat)" by simp
  ultimately show ?thesis
    by (simp add: decode_uXXXX_def hex_value_digit hex_value_zero)
qed

lemma scan_escape:
  "scanstring (escape_char c @ t) =
     (case scanstring t of Inl e \<Rightarrow> Inl e | Inr (chunks, rest) \<Rightarrow> Inr (c # chunks, rest))"
proof -
  consider (q) "c = CHR 0x22" | (b) "c = CHR 0x5C" | (n) "c = CHR 0x0A" | (r) "c = CHR 0x0D"
    | (t) "c = CHR 0x09" | (bs) "c = CHR 0x08" | (f) "c = CHR 0x0C"
    | (u) "c \<noteq> CHR 0x22" "c \<noteq> CHR 0x5C" "c \<noteq> CHR 0x0A" "c \<noteq> CHR 0x0D" "c \<noteq> CHR 0x09"
          "c \<noteq> CHR 0x08" "c \<noteq> CHR 0x0C" "(of_char c :: nat) < 32 \<or> 126 < (of_char c :: nat)"
    | (raw) "c \<noteq> CHR 0x22" "c \<noteq> CHR 0x5C" "c \<noteq> CHR 0x0A" "c \<noteq> CHR 0x0D" "c \<noteq> CHR 0x09"
          "c \<noteq> CHR 0x08" "c \<noteq> CHR 0x0C" "\<not> ((of_char c :: nat) < 32 \<or> 126 < (of_char c :: nat))"
    by blast
  then show ?thesis
  proof cases
    case u
    then have e: "escape_char c = [CHR 0x5C, CHR ''u'', CHR ''0'', CHR ''0'',
              hex_digit ((of_char c :: nat) div 16), hex_digit ((of_char c :: nat) mod 16)]"
      by (simp add: escape_char_def)
    show ?thesis unfolding e by (simp add: decode_escape)
  next
    case raw
    then have e: "escape_char c = [c]" by (simp add: escape_char_def)
    from raw have "\<not> (of_char c :: nat) < 32" by simp
    with raw(1,2) show ?thesis unfolding e by simp
  qed (auto simp add: escape_char_def backslash_def split: sum.splits)
qed

lemma scanstring_encode:
  "scanstring (concat (map escape_char s) @ CHR 0x22 # rest) = Inr (s, rest)"
  by (induction s) (simp_all add: scan_escape)

lemma scanstring_encode_string:
  "\<exists>t. encode_string s @ rest = CHR 0x22 # t \<and> scanstring t = Inr (s, rest)"
  by (simp add: encode_string_def scanstring_encode)

lemma dict_distinct_aux:
  "distinct (map fst (acc @ kvs)) \<Longrightarrow>
   foldl (\<lambda>d kv. AList.update (fst kv) (snd kv) d) acc kvs = acc @ kvs"
proof (induction kvs arbitrary: acc)
  case Nil
  then show ?case by simp
next
  case (Cons kv kvs)
  have "AList.update (fst kv) (snd kv) acc = acc @ [kv]"
    using Cons.prems by (induction acc) auto
  moreover have "distinct (map fst ((acc @ [kv]) @ kvs))" using Cons.prems by simp
  ultimately show ?case using Cons.IH[of "acc @ [kv]"] by simp
qed

lemma dict_distinct: "distinct (map fst kvs) \<Longrightarrow> dict kvs = kvs"
  using dict_distinct_aux[of "[]" kvs] by (simp add: dict_def)

lemma parse_array_items:
  assumes ih: "\<And>x fuel l rest. x \<in> set xs \<Longrightarrow> json_size x \<le> fuel \<Longrightarrow>
                 scan_once fuel (dumps l x @ rest) = Inr (x, rest)"
      and ne: "xs \<noteq> []"
      and fuel: "sum_list (map (\<lambda>x. Suc (json_size x)) xs) \<le> fuel"
  shows "parse_array fuel acc
           (skip_ws (join_items (map (\<lambda>x. indent l @ dumps l x) xs)
                     @ CHR 0x0A # indent l' @ CHR '']'' # rest))
         = Inr (acc @ xs, rest)"
  using assms
proof (induction xs arbitrary: fuel acc)
  case Nil
  then show ?case by simp
next
  case (Cons x ys)
  from Cons.prems(3) obtain f where f: "fuel = Suc f"
    and fx: "json_size x \<le> f" and fys: "sum_list (map (\<lambda>x. Suc (json_size x)) ys) \<le> f"
    by (cases fuel) auto
  have sx: "\<And>r. scan_once f (dumps l x @ r) = Inr (x, r)"
    using Cons.prems(1) fx by simp
  show ?case
  proof (cases ys)
    case Nil
    then show ?thesis by (simp add: f sx)
  next
    case (Cons y zs)
    have "parse_array f (acc @ [x])
           (skip_ws (join_items (map (\<lambda>x. indent l @ dumps l x) ys)
                     @ CHR 0x0A # indent l' @ CHR '']'' # rest))
          = Inr ((acc @ [x]) @ ys, rest)"
      using Cons.prems(1) Cons fys by (intro Cons.IH) simp_all
    then show ?thesis using Cons by (simp add: f sx)
  qed
qed

lemma parse_object_members:
  assumes ih: "\<And>kv fuel l rest. kv \<in> set kvs \<Longrightarrow> json_size (snd kv) \<le> fuel \<Longrightarrow>
                 scan_once fuel (dumps l (snd kv) @ rest) = Inr (snd kv, rest)"
      and ne: "kvs \<noteq> []"
      and fuel: "sum_list (map (\<lambda>kv. Suc (json_size (snd kv))) kvs) \<le> fuel"
  shows "parse_object fuel acc
           (skip_ws (join_items (map (\<lambda>kv. indent l @ encode_string (fst kv) @ '': ''
                                         @ dumps l (snd kv)) kvs)
                     @ CHR 0x0A # indent l' @ CHR ''}'' # rest))
         = Inr (acc @ kvs, rest)"
  using assms
proof (induction kvs arbitrary: fuel acc)
  case Nil
  then show ?case by simp
next
  case (Cons kv ys)
  obtain k v where kv: "kv = (k, v)" by (cases kv)
  from Cons.prems(3) obtain f where f: "fuel = Suc f"
    and fx: "json_size v \<le> f" and fys: "sum_list (map (\<lambda>kv. Suc (json_size (snd kv))) ys) \<le> f"
    by (cases fuel) (auto simp: kv)
  have sx: "\<And>r. scan_once f (dumps l v @ r) = Inr (v, r)"
    using Cons.prems(1)[of kv] fx by (simp add: kv)
  have key: "\<And>r. encode_string k @ r = CHR 0x22 # concat (map escape_char k) @ CHR 0x22 # r"
    by (simp add: encode_string_def)
  show ?case
  proof (cases ys)
    case Nil
    then show ?thesis by (simp add: f sx kv key scanstring_encode)
  next
    case (Cons y zs)
    have "parse_object f (acc @ [kv])
           (skip_ws (join_items (map (\<lambda>kv. indent l @ encode_string (fst kv) @ '': ''
                                         @ dumps l (snd kv)) ys)
                     @ CHR 0x0A # indent l' @ CHR ''}'' # rest))
          = Inr ((acc @ [kv]) @ ys, rest)"
      using Cons.prems(1) Cons fys by (intro Cons.IH) simp_all
    then show ?thesis using Cons by (simp add: f sx kv key scanstring_encode)
  qed
qed

lemma items_head:
  "xs \<noteq> [] \<Longrightarrow>
   \<exists>c t. skip_ws (join_items (map (\<lambda>x. indent l @ dumps l x) xs) @ s) = c # t
         \<and> (c = CHR 0x22 \<or> c = CHR ''['' \<or> c = CHR ''{'')"
proof (cases xs)
  case Nil
  moreover assume "xs \<noteq> []"
  ultimately show ?thesis by simp
next
  case (Cons x ys)
  from dumps_head[of l x] obtain c t where d: "dumps l x = c # t"
    "c = CHR 0x22 \<or> c = CHR ''['' \<or> c = CHR ''{''" by blast
  have "\<exists>u. join_items (map (\<lambda>x. indent l @ dumps l x) xs) @ s = indent l @ dumps l x @ u"
    using Cons by (cases ys) simp_all
  then obtain u where "skip_ws (join_items (map (\<lambda>x. indent l @ dumps l x) xs) @ s) = dumps l x @ u"
    by auto
  with d show ?thesis by auto
qed

lemma members_head:
  "kvs \<noteq> [] \<Longrightarrow>
   \<exists>t. skip_ws (join_items (map (\<lambda>kv. indent l @ encode_string (fst kv) @ '': ''
                                         @ dumps l (snd kv)) kvs) @ s) = CHR 0x22 # t"
proof (cases kvs)
  case Nil
  moreover assume "kvs \<noteq> []"
  ultimately show ?thesis by simp
next
  case (Cons kv ys)
  then show ?thesis by (cases ys) (simp_all add: encode_string_def)
qed

lemma scan_once_dumps:
  "wf_json v \<Longrightarrow> json_size v \<le> fuel \<Longrightarrow> scan_once fuel (dumps l v @ rest) = Inr (v, rest)"
proof (induction v arbitrary: fuel l rest)
  case (JString s)
  then obtain f where f: "fuel = Suc f" by (cases fuel) auto
  show ?case by (simp add: f encode_string_def scanstring_encode)
next
  case (JArray xs)
  from JArray.prems(2) obtain f where f: "fuel = Suc f"
    and fxs: "sum_list (map (\<lambda>x. Suc (json_size x)) xs) \<le> f" by (cases fuel) auto
  show ?case
  proof (cases "xs = []")
    case True
    then show ?thesis by (simp add: f)
  next
    case False
    let ?body = "join_items (map (\<lambda>x. indent (Suc l) @ dumps (Suc l) x) xs)
                   @ CHR 0x0A # indent l @ CHR '']'' # rest"
    have ih: "\<And>x fuel l rest. x \<in> set xs \<Longrightarrow> json_size x \<le> fuel \<Longrightarrow>
                 scan_once fuel (dumps l x @ rest) = Inr (x, rest)"
      using JArray.IH JArray.prems(1) by (simp add: list_all_iff)
    have p: "parse_array f [] (skip_ws ?body) = Inr ([] @ xs, rest)"
      using ih False fxs by (rule parse_array_items)
    from items_head[OF False, of "Suc l" "CHR 0x0A # indent l @ CHR '']'' # rest"]
    obtain c t where h: "skip_ws ?body = c # t" "c = CHR 0x22 \<or> c = CHR ''['' \<or> c = CHR ''{''"
      by blast
    from h(2) have c: "c \<noteq> CHR '']''" by auto
    have "scan_once (Suc f) (CHR ''['' # CHR 0x0A # ?body) = Inr (JArray xs, rest)"
      using p c by (simp add: h(1))
    then show ?thesis using False by (simp add: f)
  qed
next
  case (JObject kvs)
  from JObject.prems(2) obtain f where f: "fuel = Suc f"
    and fxs: "sum_list (map (\<lambda>kv. Suc (json_size (snd kv))) kvs) \<le> f" by (cases fuel) auto
  from JObject.prems(1) have d: "dict kvs = kvs" by (simp add: dict_distinct)
  show ?case
  proof (cases "kvs = []")
    case True
    then show ?thesis by (simp add: f)
  next
    case False
    let ?body = "join_items (map (\<lambda>kv. indent (Suc l) @ encode_string (fst kv) @ '': ''
                                         @ dumps (Suc l) (snd kv)) kvs)
                   @ CHR 0x0A # indent l @ CHR ''}'' # rest"
    have ih: "\<And>kv fuel l rest. kv \<in> set kvs \<Longrightarrow> json_size (snd kv) \<le> fuel \<Longrightarrow>
                 scan_once fuel (dumps l (snd kv) @ rest) = Inr (snd kv, rest)"
    proof -
      fix kv :: "string \<times> json" and fuel l rest
      assume a: "kv \<in> set kvs" "json_size (snd kv) \<le> fuel"
      from a(1) JObject.prems(1) have w: "wf_json (snd kv)" by (simp add: list_all_iff)
      have "snd kv \<in> Basic_BNFs.snds kv" by (cases kv) simp
      from JObject.IH[OF a(1) this w a(2)] show "scan_once fuel (dumps l (snd kv) @ rest) = Inr (snd kv, rest)" .
    qed
    have p: "parse_object f [] (skip_ws ?body) = Inr ([] @ kvs, rest)"
      using ih False fxs by (rule parse_object_members)
    from members_head[OF False, of "Suc l" "CHR 0x0A # indent l @ CHR ''}'' # rest"]
    obtain t where h: "skip_ws ?body = CHR 0x22 # t" by blast
    have "scan_once (Suc f) (CHR ''{'' # CHR 0x0A # ?body) = Inr (JObject kvs, rest)"
      using p d h by simp
    then show ?thesis using False by (simp add: f)
  qed
qed

lemma length_join_items: "sum_list (map length ys) \<le> length (join_items ys)"
  by (induction ys rule: join_items.induct) simp_all

lemma json_size_le_length: "json_size v \<le> length (dumps l v)"
proof (induction v arbitrary: l)
  case (JString s)
  show ?case by (simp add: encode_string_def)
next
  case (JArray xs)
  have "sum_list (map (\<lambda>x. Suc (json_size x)) xs)
        \<le> sum_list (map length (map (\<lambda>x. indent (Suc l) @ dumps (Suc l) x) xs))"
    unfolding map_map comp_def
  proof (rule sum_list_mono)
    fix x assume "x \<in> set xs"
    from JArray.IH[OF this, of "Suc l"]
    show "Suc (json_size x) \<le> length (indent (Suc l) @ dumps (Suc l) x)"
      by (simp add: indent_def)
  qed
  also have "\<dots> \<le> length (join_items (map (\<lambda>x. indent (Suc l) @ dumps (Suc l) x) xs))"
    by (rule length_join_items)
  finally show ?case by simp
next
  case (JObject kvs)
  have "sum_list (map (\<lambda>kv. Suc (json_size (snd kv))) kvs)
        \<le> sum_list (map length (map (\<lambda>kv. indent (Suc l) @ encode_string (fst kv) @ '': ''
                                         @ dumps (Suc l) (snd kv)) kvs))"
    unfolding map_map comp_def
  proof (rule sum_list_mono)
    fix kv assume a: "kv \<in> set kvs"
    have "snd kv \<in> Basic_BNFs.snds kv" by (cases kv) simp
    from JObject.IH[OF a this, of "Suc l"]
    show "Suc (json_size (snd kv)) \<le> length (indent (Suc l) @ encode_string (fst kv) @ '': ''
                                         @ dumps (Suc l) (snd kv))"
      by (simp add: indent_def)
  qed
  also have "\<dots> \<le> length (join_items (map (\<lambda>kv. indent (Suc l) @ encode_string (fst kv) @ '': ''
                                         @ dumps (Suc l) (snd kv)) kvs))"
    by (rule length_join_items)
  finally show ?case by simp
qed

lemma loads_dumps: "wf_json v \<Longrightarrow> loads (dumps 0 v) = Inr v"
proof -
  assume w: "wf_json v"
  have "json_size v \<le> Suc (length (dumps 0 v))"
    using json_size_le_length[of v 0] by simp
  from scan_once_dumps[OF w this, of 0 "[]"] show ?thesis
    using skip_ws_dumps[of 0 v "[]"] by (simp add: loads_def skip_ws_def)
qed

lemma those_map_Some: "(\<And>x. x \<in> set xs \<Longrightarrow> f x = Some (g x)) \<Longrightarrow> those (map f xs) = Some (map g xs)"
  by (induction xs) simp_all

lemma json_to_entry_inv: "json_to_entry (entry_to_json e) = Some e"
proof -
  have "those (map (\<lambda>kv. map_option (Pair (fst kv)) (json_to_string (snd kv)))
               (map (\<lambda>kv. (fst kv, JString (snd kv))) e)) = Some (map (\<lambda>kv. kv) e)"
    unfolding map_map by (rule those_map_Some) simp
  then show ?thesis by (simp add: entry_to_json_def)
qed

lemma those_entries: "those (map (json_to_entry \<circ> entry_to_json) es) = Some es"
proof -
  have "those (map (json_to_entry \<circ> entry_to_json) es) = Some (map (\<lambda>e. e) es)"
    by (rule those_map_Some) (simp add: json_to_entry_inv)
  then show ?thesis by simp
qed

lemma json_to_entries_inv: "json_to_entries (JArray (map entry_to_json es)) = Some es"
  by (simp add: those_entries)

lemma json_to_log_inv: "json_to_log (log_to_json log) = Some log"
proof -
  have "those (map (\<lambda>kv. map_option (Pair (fst kv)) (json_to_entries (snd kv)))
               (map (\<lambda>ne. (fst ne, JArray (map entry_to_json (snd ne)))) log))
        = Some (map (\<lambda>ne. ne) log)"
    unfolding map_map by (rule those_map_Some) (simp add: those_entries)
  then show ?thesis by (simp add: log_to_json_def)
qed

lemma wf_log_to_json: "is_mapping log \<Longrightarrow> wf_json (log_to_json log)"
  by (auto simp: is_mapping_def log_to_json_def entry_to_json_def list_all_iff comp_def)

lemma json_load_dump: "is_mapping log \<Longrightarrow> json_load (json_dump log) = Inr log"
  by (simp add: json_load_def json_dump_def loads_dumps wf_log_to_json json_to_log_inv)

text \<open>
  Claim C6. Saving a Version Log and loading it from the same path gives back the same
  mapping, the names, the entries of each name and the keys of each entry in their order:
  for every log that is a mapping (no name and no key of an entry occurs twice), any
  manager on that path loads exactly the log that was written; every save that returns
  has written it, and a save returns whenever the path can be opened.
\<close>

theorem version_log_round_trip:
  assumes "is_mapping (version_log m)"
      and "version_log_path m2 = version_log_path m"
  shows "load_version_log m2 (write_version_log m w) = Inr (m2\<lparr>version_log := version_log m\<rparr>)
       \<and> (\<forall>w1. save_version_log env m w = (Inr (), w1) \<longrightarrow>
              load_version_log m2 w1 = Inr (m2\<lparr>version_log := version_log m\<rparr>))
       \<and> (open_raises env (version_log_path m) = None \<longrightarrow>
              save_version_log env m w = (Inr (), write_version_log m w))"
proof -
  have "map_of (files (write_version_log m w)) (version_log_path m2)
        = Some (json_dump (version_log m))"
    using assms(2) by (simp add: update_conv')
  then have 1: "load_version_log m2 (write_version_log m w) = Inr (m2\<lparr>version_log := version_log m\<rparr>)"
    using assms(1) by (simp add: load_version_log_def json_load_dump)
  have 2: "\<forall>w1. save_version_log env m w = (Inr (), w1) \<longrightarrow>
              load_version_log m2 w1 = Inr (m2\<lparr>version_log := version_log m\<rparr>)"
    using 1 save_version_log_cases[of env m w] by auto
  have 3: "open_raises env (version_log_path m) = None \<longrightarrow>
              save_version_log env m w = (Inr (), write_version_log m w)"
    by (simp add: save_version_log_ok)
  from 1 2 3 show ?thesis by blast
qed

theorem version_log_round_trip_witness:
  "is_mapping (version_log example_manager)
   \<and> open_raises example_env (version_log_path example_manager) = None
   \<and> save_version_log example_env example_manager example_world
       = (Inr (), write_version_log example_manager example_world)
   \<and> load_version_log example_manager (write_version_log example_manager example_world)
       = Inr example_manager"
proof -
  have h: "is_mapping (version_log example_manager)"
    by (simp add: is_mapping_def example_defs)
  have o: "open_raises example_env (version_log_path example_manager) = None"
    by (simp add: example_defs)
  from version_log_round_trip[OF h, of example_manager example_world example_env] h o
  show ?thesis by simp
qed

end
